theory Spec2Isabelle
  imports Main "HOL-Library.AList" "HOL-Library.Multiset" "HOL-Library.Word"
begin

section \<open>JavaScript values shared by the modules\<close>

text \<open>
  A thrown JavaScript exception is a value of \<open>error\<close>; a function that may throw
  returns \<open>error + 'a\<close> with \<open>Inl\<close> for the exception. \<open>Error\<close> is the
  plain \<^verbatim>\<open>new Error(msg)\<close>, \<open>TypeError\<close> the runtime's own error for a call of
  something that is not a function.
\<close>

datatype error = Error string | TypeError string

text \<open>
  A string argument that may be \<^verbatim>\<open>undefined\<close> is a \<open>string option\<close>. JavaScript's
  \<^verbatim>\<open>x || d\<close> keeps \<open>x\<close> when it is truthy; for such an argument that is: defined
  and not the empty string.
\<close>

definition or_default :: "string option \<Rightarrow> string \<Rightarrow> string" where
  "or_default x d = (case x of None \<Rightarrow> d | Some s \<Rightarrow> if s \<noteq> [] then s else d)"

section \<open>JavaScript string and array helpers\<close>

text \<open>
  \<^verbatim>\<open>s.startsWith(p)\<close>, \<^verbatim>\<open>s.split(c)\<close> for a one-character separator (never an empty
  array: the empty string splits into one empty part), \<^verbatim>\<open>parts[i]\<close> (\<open>None\<close> for
  \<^verbatim>\<open>undefined\<close> past the end), \<^verbatim>\<open>xs.join(sep)\<close>, and \<^verbatim>\<open>Set.add\<close> on a set kept
  in insertion order.
\<close>

definition startsWith :: "string \<Rightarrow> string \<Rightarrow> bool" where
  "startsWith s p = (take (length p) s = p)"

fun split :: "char \<Rightarrow> string \<Rightarrow> string list" where
  "split c [] = [[]]"
| "split c (x # xs) =
     (if x = c then [] # split c xs
      else (case split c xs of [] \<Rightarrow> [[x]] | p # ps \<Rightarrow> (x # p) # ps))"

definition index :: "'a list \<Rightarrow> nat \<Rightarrow> 'a option" where
  "index xs i = (if i < length xs then Some (xs ! i) else None)"

fun join :: "string \<Rightarrow> string list \<Rightarrow> string" where
  "join sep [] = []"
| "join sep [x] = x"
| "join sep (x # y # ys) = x @ sep @ join sep (y # ys)"

definition set_add :: "'a \<Rightarrow> 'a list \<Rightarrow> 'a list" where
  "set_add x xs = (if x \<in> set xs then xs else xs @ [x])"

section \<open>lib/utils/logging.js\<close>

text \<open>
  What the module reads of the RPC result. A node's \<^verbatim>\<open>status\<close> is one of the plain
  strings of \<^verbatim>\<open>ExecutionStatusBasic\<close> or an object with the optional fields
  \<^verbatim>\<open>SuccessValue\<close>, \<^verbatim>\<open>SuccessReceiptId\<close> and \<^verbatim>\<open>Failure\<close>; an absent field
  (\<^verbatim>\<open>undefined\<close>) is \<open>None\<close>. The module tests the \<^verbatim>\<open>Failure\<close> field with
  \<^verbatim>\<open>typeof\<close>, so that field is a JavaScript value: \<^verbatim>\<open>null\<close>, an error object of
  type \<open>'f\<close> (what the RPC sends), or a value of another type, given by its text.
  Fields the module never reads (ids, gas, block hashes) are left out.
\<close>

datatype 'f js_value = JsNull | JsObject 'f | JsPrimitive string

text \<open>\<^verbatim>\<open>typeof v === 'object'\<close>: true of objects and of \<^verbatim>\<open>null\<close>.\<close>

fun typeof_object :: "'f js_value \<Rightarrow> bool" where
  "typeof_object JsNull = True"
| "typeof_object (JsObject x) = True"
| "typeof_object (JsPrimitive x) = False"

datatype 'f ExecutionStatus =
    ExecutionStatusBasic string
  | ExecutionStatus "string option" "string option" "'f js_value option"

record 'f ExecutionOutcome =
  logs :: "string list"
  receipt_ids :: "string list"
  status :: "'f ExecutionStatus"

record 'f ExecutionOutcomeWithId =
  outcome :: "'f ExecutionOutcome"

record 'f FinalExecutionOutcome =
  transaction_outcome :: "'f ExecutionOutcomeWithId"
  receipts_outcome :: "'f ExecutionOutcomeWithId list"

text \<open>The console: every call of \<^verbatim>\<open>console.log\<close> or \<^verbatim>\<open>console.warn\<close>, in order.\<close>

datatype console = console_log string | console_warn string

text \<open>
  The two tests of the \<^verbatim>\<open>reduce\<close> callback differ.
  \<^verbatim>\<open>isFailure = typeof status === 'object' && typeof status.Failure === 'object'\<close>
  decides (with the logs) whether the node is kept: it holds when the status is an
  object whose \<^verbatim>\<open>Failure\<close> is an object or \<^verbatim>\<open>null\<close>.
  \<^verbatim>\<open>typeof status === 'object' && status.Failure !== undefined\<close> decides whether the
  failure of a kept node is parsed: it holds when the status is an object that has
  its \<^verbatim>\<open>Failure\<close> field at all; \<open>Failure\<close> reads that field.
\<close>

fun isFailure :: "'f ExecutionStatus \<Rightarrow> bool" where
  "isFailure (ExecutionStatusBasic b) = False"
| "isFailure (ExecutionStatus successValue successReceiptId failure) =
     (case failure of None \<Rightarrow> False | Some v \<Rightarrow> typeof_object v)"

fun Failure :: "'f ExecutionStatus \<Rightarrow> 'f js_value option" where
  "Failure (ExecutionStatusBasic b) = None"
| "Failure (ExecutionStatus successValue successReceiptId failure) = failure"

record 'e flatLog =
  receiptIds :: "string list"
  logs :: "string list"
  failure :: "'e option"

definition SUPPRESS_LOGGING :: bool where
  "SUPPRESS_LOGGING = True"

text \<open>
  Both functions start with \<^verbatim>\<open>if (SUPPRESS_LOGGING) { return; }\<close>. Their bodies are
  given for either value of that module constant (\<open>suppress\<close>); the functions the
  module exports are the instances at \<open>SUPPRESS_LOGGING\<close>.

  \<^verbatim>\<open>parseRpcError\<close> comes from \<^verbatim>\<open>./rpc_errors\<close>, which is not among the sources
  verified here: it is the parameter \<open>parseRpcError :: 'f js_value \<Rightarrow> 'e\<close>,
  returning an error object (truthy) for whatever it is given, and
  \<open>toString :: 'e \<Rightarrow> string\<close> is that object's conversion inside the template
  string.
\<close>

definition printTxOutcomeLogs_when ::
  "bool \<Rightarrow> string \<Rightarrow> string list \<Rightarrow> string \<Rightarrow> console list" where
  "printTxOutcomeLogs_when suppress contractId ls prefix =
     (if suppress then []
      else map (\<lambda>log. console_log (prefix @ ''Log ['' @ contractId @ '']: '' @ log)) ls)"

definition flatLogs ::
  "('f js_value \<Rightarrow> 'e) \<Rightarrow> 'f FinalExecutionOutcome \<Rightarrow> 'e flatLog list" where
  "flatLogs parseRpcError final =
     foldl (\<lambda>acc it.
              if 0 < length (ExecutionOutcome.logs (outcome it)) \<or> isFailure (status (outcome it))
              then acc @ [\<lparr>receiptIds = receipt_ids (outcome it),
                           logs = ExecutionOutcome.logs (outcome it),
                           failure = map_option parseRpcError (Failure (status (outcome it)))\<rparr>]
              else acc)
       [] (transaction_outcome final # receipts_outcome final)"

text \<open>The body of the loop over \<^verbatim>\<open>flatLogs\<close>, for one of its entries.\<close>

definition printResult ::
  "bool \<Rightarrow> ('e \<Rightarrow> string) \<Rightarrow> string \<Rightarrow> 'e flatLog \<Rightarrow> console list" where
  "printResult suppress toString contractId result =
     console_log (''Receipt'' @ (if 1 < length (receiptIds result) then ''s'' else [])
                  @ '': '' @ join '', '' (receiptIds result))
     # printTxOutcomeLogs_when suppress contractId (logs result) [CHR 0x09]
     @ (case failure result of
          None \<Rightarrow> []
        | Some e \<Rightarrow>
            [console_warn (CHR 0x09 # ''Failure ['' @ contractId @ '']: '' @ toString e)])"

definition printTxOutcomeLogsAndFailures_when ::
  "bool \<Rightarrow> ('f js_value \<Rightarrow> 'e) \<Rightarrow> ('e \<Rightarrow> string) \<Rightarrow> string \<Rightarrow>
     'f FinalExecutionOutcome \<Rightarrow> console list" where
  "printTxOutcomeLogsAndFailures_when suppress parseRpcError toString contractId final =
     (if suppress then []
      else concat (map (printResult suppress toString contractId)
                     (flatLogs parseRpcError final)))"

definition printTxOutcomeLogs :: "string \<Rightarrow> string list \<Rightarrow> string \<Rightarrow> console list" where
  "printTxOutcomeLogs = printTxOutcomeLogs_when SUPPRESS_LOGGING"

definition printTxOutcomeLogsAndFailures ::
  "('f js_value \<Rightarrow> 'e) \<Rightarrow> ('e \<Rightarrow> string) \<Rightarrow> string \<Rightarrow> 'f FinalExecutionOutcome \<Rightarrow>
     console list" where
  "printTxOutcomeLogsAndFailures = printTxOutcomeLogsAndFailures_when SUPPRESS_LOGGING"

text \<open>Reading a console back: the warnings, and the lines written by \<^verbatim>\<open>console.log\<close>
  that start with a given prefix.\<close>

fun warnings :: "console list \<Rightarrow> string list" where
  "warnings [] = []"
| "warnings (console_warn w # out) = w # warnings out"
| "warnings (console_log l # out) = warnings out"

fun logged :: "string \<Rightarrow> console list \<Rightarrow> string list" where
  "logged p [] = []"
| "logged p (console_log l # out) = (if startsWith l p then l # logged p out else logged p out)"
| "logged p (console_warn w # out) = logged p out"

text \<open>The graph of the scenario: a root that succeeded by spawning receipt \<open>r1\<close>, and
  that receipt failed in the called function; each node wrote one log line.\<close>

definition masked_failure :: "string FinalExecutionOutcome" where
  "masked_failure =
     \<lparr>transaction_outcome =
        \<lparr>outcome = \<lparr>ExecutionOutcome.logs = [''root log''], receipt_ids = [''r1''],
                     status = ExecutionStatus None (Some ''r1'') None\<rparr>\<rparr>,
      receipts_outcome =
        [\<lparr>outcome = \<lparr>ExecutionOutcome.logs = [''receipt log''], receipt_ids = [],
                      status = ExecutionStatus None None
                                 (Some (JsObject ''FunctionCallError''))\<rparr>\<rparr>]\<rparr>"

text \<open>A second graph: a root without logs, a receipt without logs whose
  \<^verbatim>\<open>Failure\<close> is a plain string, and a receipt with a log line and such a
  \<^verbatim>\<open>Failure\<close>.\<close>

definition string_failures :: "string FinalExecutionOutcome" where
  "string_failures =
     \<lparr>transaction_outcome =
        \<lparr>outcome = \<lparr>ExecutionOutcome.logs = [], receipt_ids = [''r1'', ''r2''],
                     status = ExecutionStatus None (Some ''r1'') None\<rparr>\<rparr>,
      receipts_outcome =
        [\<lparr>outcome = \<lparr>ExecutionOutcome.logs = [], receipt_ids = [],
                      status = ExecutionStatus None None (Some (JsPrimitive ''silent''))\<rparr>\<rparr>,
         \<lparr>outcome = \<lparr>ExecutionOutcome.logs = [''receipt log''], receipt_ids = [],
                      status = ExecutionStatus None None (Some (JsPrimitive ''logged''))\<rparr>\<rparr>]\<rparr>"

text \<open>For the examples: an error parser that keeps the value, and the text of a
  value.\<close>

fun js_text :: "string js_value \<Rightarrow> string" where
  "js_text JsNull = ''null''"
| "js_text (JsObject x) = x"
| "js_text (JsPrimitive x) = x"

section \<open>src/key_stores/browser_local_storage_key_store.ts\<close>


text \<open>
  The state the methods work on: the instance's fields \<^verbatim>\<open>localStorage\<close> (a plain
  object used as a dictionary; an association list in property order, read with
  \<open>map_of\<close>) and \<^verbatim>\<open>prefix\<close>, the extension's \<^verbatim>\<open>chrome.storage.local\<close> area the
  methods write to, and the load the constructor has started: \<open>pending_load\<close>
  holds the items that \<^verbatim>\<open>chrome.storage.local.get()\<close> will deliver while the
  callback registered with \<^verbatim>\<open>.then\<close> has not run yet.

  The class \<^verbatim>\<open>KeyPair\<close> comes from \<^verbatim>\<open>utils/key_pair\<close>, which is not among the sources
  verified here. Its two operations used here are parameters of the methods:
  \<open>toString :: 'kp \<Rightarrow> string\<close> and \<open>fromString :: string \<Rightarrow> error + 'kp\<close>
  (\<^verbatim>\<open>KeyPair.fromString\<close> throws on a string it cannot read).
\<close>

record BrowserLocalStorageKeyStore =
  localStorage :: "(string \<times> string) list"
  prefix :: string
  chrome_storage_local :: "(string \<times> string) list"
  pending_load :: "(string \<times> string) list option"


text \<open>
  The callback \<^verbatim>\<open>result => { this.localStorage = { ...result } }\<close> of the
  constructor. It runs once, when the caller's code has suspended and the answer is
  there; it replaces the in-memory object by a copy of the loaded items.
\<close>

definition constructor_loaded :: "BrowserLocalStorageKeyStore \<Rightarrow> BrowserLocalStorageKeyStore" where
  "constructor_loaded s =
     (case pending_load s of
        None \<Rightarrow> s
      | Some result \<Rightarrow> s\<lparr>localStorage := result, pending_load := None\<rparr>)"









text \<open>
  \<^verbatim>\<open>private *storageKeys() { return Object.values(this.localStorage); }\<close> is a
  generator whose body has no \<^verbatim>\<open>yield\<close>: the array is the generator's return value,
  which a \<^verbatim>\<open>for (const key of ...)\<close> loop never sees. A generator run is the list
  of values it yields together with the value it returns; the loops below iterate
  over \<open>yielded\<close>.
\<close>

record generator_run =
  yielded :: "string list"
  returned :: "string list"

definition storageKeys :: "BrowserLocalStorageKeyStore \<Rightarrow> generator_run" where
  "storageKeys s = \<lparr>yielded = [], returned = map snd (localStorage s)\<rparr>"

text \<open>
  \<^verbatim>\<open>clear\<close> calls \<^verbatim>\<open>this.localStorage.removeItem(key)\<close> for a key under the prefix;
  the in-memory object is a plain object (always truthy) without such a method, so
  reaching that call throws a \<open>TypeError\<close>.
\<close>

fun clear_loop ::
  "BrowserLocalStorageKeyStore \<Rightarrow> string list \<Rightarrow> error + BrowserLocalStorageKeyStore" where
  "clear_loop s [] = Inr s"
| "clear_loop s (key # keys) =
     (if startsWith key (prefix s)
      then Inl (TypeError ''this.localStorage.removeItem is not a function'')
      else clear_loop s keys)"

definition clear :: "BrowserLocalStorageKeyStore \<Rightarrow> error + BrowserLocalStorageKeyStore" where
  "clear s = clear_loop s (yielded (storageKeys s))"

definition getNetworks :: "BrowserLocalStorageKeyStore \<Rightarrow> string option list" where
  "getNetworks s =
     foldl (\<lambda>result key.
              if startsWith key (prefix s)
              then (let parts = split CHR '':'' (drop (length (prefix s)) key)
                    in set_add (index parts 1) result)
              else result)
       [] (yielded (storageKeys s))"

definition getAccounts :: "string \<Rightarrow> BrowserLocalStorageKeyStore \<Rightarrow> string list" where
  "getAccounts networkId s =
     foldl (\<lambda>result key.
              if startsWith key (prefix s)
              then (let parts = split CHR '':'' (drop (length (prefix s)) key)
                    in if index parts 1 = Some networkId then result @ [hd parts] else result)
              else result)
       [] (yielded (storageKeys s))"

section \<open>lib/utils/errors.js: TypedError\<close>

record ErrorContext =
  transactionHash :: "string option"

text \<open>
  The fields of a \<^verbatim>\<open>TypedError\<close> as they read: \<^verbatim>\<open>e.message\<close> is always a string
  (\<^verbatim>\<open>Error\<close> stores a message it is given; without one the object has no
  message of its own and \<^verbatim>\<open>e.message\<close> reads the prototype's empty string),
  \<^verbatim>\<open>e.type\<close> is a string, \<^verbatim>\<open>e.context\<close> may be \<^verbatim>\<open>undefined\<close>.
\<close>

record TypedError =
  message :: string
  type :: string
  "context" :: "ErrorContext option"

text \<open>
  \<^verbatim>\<open>constructor(message, type, context) { super(message);
     this.type = type || 'UntypedError'; this.context = context; }\<close>
\<close>

definition new_TypedError ::
  "string option \<Rightarrow> string option \<Rightarrow> ErrorContext option \<Rightarrow> TypedError" where
  "new_TypedError msg ty ctx =
     \<lparr>message = (case msg of None \<Rightarrow> [] | Some m \<Rightarrow> m),
      type = or_default ty ''UntypedError'',
      context = ctx\<rparr>"

section \<open>connection.js: Connection.fromConfig\<close>

text \<open>
  The provider and signer descriptions are objects read through their \<^verbatim>\<open>type\<close> field;
  an object without that field (a ready-made provider or signer) has \<open>type = None\<close>
  and carries whatever else it has in the record's extension. The classes
  \<^verbatim>\<open>JsonRpcProvider\<close> and \<^verbatim>\<open>InMemorySigner\<close> are defined in modules that are not
  among the sources verified here: an instance is represented by the class name
  applied to the constructor's argument. \<^verbatim>\<open>Object.assign({}, config.args)\<close> is a
  shallow copy with the same properties as \<^verbatim>\<open>config.args\<close>, hence the same value
  here.
\<close>

record 'a ProviderConfig =
  type :: "string option"
  args :: 'a

record 'k SignerConfig =
  type :: "string option"
  keyStore :: 'k

datatype ('cfg, 'a) Provider = ProviderObject 'cfg | JsonRpcProvider 'a

datatype ('cfg, 'k) Signer = SignerObject 'cfg | InMemorySigner 'k

definition getProvider ::
  "('a, 'z) ProviderConfig_scheme \<Rightarrow> error + (('a, 'z) ProviderConfig_scheme, 'a) Provider" where
  "getProvider config =
     (case ProviderConfig.type config of
        None \<Rightarrow> Inr (ProviderObject config)
      | Some t \<Rightarrow>
          if t = ''JsonRpcProvider'' then Inr (JsonRpcProvider (args config))
          else Inl (Error (''Unknown provider type '' @ t)))"

text \<open>
  \<open>getSigner\<close> also writes to the console on the \<^verbatim>\<open>InMemorySigner\<close> branch: the
  first component of its result lists the argument tuples of each
  \<^verbatim>\<open>console.log\<close> call.
\<close>

definition getSigner ::
  "('k, 'z) SignerConfig_scheme \<Rightarrow>
     (string \<times> 'k) list \<times> (error + (('k, 'z) SignerConfig_scheme, 'k) Signer)" where
  "getSigner config =
     (case SignerConfig.type config of
        None \<Rightarrow> ([], Inr (SignerObject config))
      | Some t \<Rightarrow>
          if t = ''InMemorySigner''
          then ([(''inmemory signer '', keyStore config)], Inr (InMemorySigner (keyStore config)))
          else ([], Inl (Error (''Unknown signer type '' @ t))))"

record ('p, 's) ConnectionConfig =
  networkId :: string
  provider :: 'p
  signer :: 's
  jsvmAccountId :: "string option"

record ('p, 's) Connection =
  networkId :: string
  provider :: 'p
  signer :: 's
  jsvmAccountId :: "string option"

definition fromConfig ::
  "(('a, 'y) ProviderConfig_scheme, ('k, 'z) SignerConfig_scheme) ConnectionConfig \<Rightarrow>
     (string \<times> 'k) list \<times>
     (error + ((('a, 'y) ProviderConfig_scheme, 'a) Provider,
               (('k, 'z) SignerConfig_scheme, 'k) Signer) Connection)" where
  "fromConfig config =
     (case getProvider (ConnectionConfig.provider config) of
        Inl e \<Rightarrow> ([], Inl e)
      | Inr p \<Rightarrow>
          (case getSigner (ConnectionConfig.signer config) of
             (out, Inl e) \<Rightarrow> (out, Inl e)
           | (out, Inr s) \<Rightarrow>
               (out, Inr \<lparr>networkId = ConnectionConfig.networkId config, provider = p,
                          signer = s,
                          jsvmAccountId = ConnectionConfig.jsvmAccountId config\<rparr>)))"

section \<open>The submission pipeline of the specification\<close>

text \<open>
  The nonce allocator, the submitter and the call that chains them are described by
  the specification (sections 4.2, 4.4, 5, 6 and 7) but their code is not among the
  sources verified here. Every definition of this section is written from
  the specification's words. Time is left out: a backoff delay is a retry, and the
  polling deadline is a bound on the number of polls.
\<close>

text \<open>Modelled from the spec: the key of the NonceAllocator's mapping (section 4.2),
  an account identifier with a public key.\<close>

type_synonym access_key_id = "string \<times> string"

text \<open>Modelled from the spec: byte strings, as the TransactionEncoder produces and the
  NetworkClient broadcasts them (sections 4.1 and 6).\<close>

type_synonym bytes = "8 word list"

text \<open>Modelled from the spec: the machine-readable kinds a NetworkClient error is
  tagged with (section 6), with the causes section 4.4 names.\<close>

datatype rpc_error =
    timeout | serverError | connectionReset | nodeSyncing | rateLimited
  | alreadyKnown
  | invalidNonce | invalidSignature | notEnoughBalance | accountNotFound | actionError
  | notFound

text \<open>Modelled from the spec: the three classes into which the Submitter partitions
  NetworkClient failures (section 4.4).\<close>

datatype error_class = Transient | AlreadyExists | Fatal

text \<open>Modelled from the spec: the Submitter's retry classification (section 4.4):
  connection reset, timeout, HTTP 5xx, node still syncing and rate-limited are
  transient; "already seen" is its own class; everything else is fatal.\<close>

fun classify :: "rpc_error \<Rightarrow> error_class" where
  "classify timeout = Transient"
| "classify serverError = Transient"
| "classify connectionReset = Transient"
| "classify nodeSyncing = Transient"
| "classify rateLimited = Transient"
| "classify alreadyKnown = AlreadyExists"
| "classify e = Fatal"

text \<open>Modelled from the spec: the error taxonomy of section 7.\<close>

datatype pipeline_error =
    EncodingError | SigningError | NonceConflictError
  | NetworkTransientError rpc_error | NetworkFatalError rpc_error
  | ReceiptFailure | RetryExhaustedError | PendingTimeout

text \<open>Modelled from the spec: the NetworkClient contract of section 6. The network is
  an external, changing system: each call reads a network state \<open>'n\<close> and leaves
  a new one. \<open>getTransactionStatus\<close> answers \<open>None\<close> while the transaction is
  pending and the raw execution result \<open>'r\<close> once it is final. The hash an accepted
  broadcast is answered with is the hash of the transaction (section 3), which the
  signed envelope carries, so the answer itself holds nothing more.\<close>

record ('n, 'r) NetworkClient =
  queryAccessKey :: "'n \<Rightarrow> access_key_id \<Rightarrow> (rpc_error + nat) \<times> 'n"
  broadcastTransaction :: "'n \<Rightarrow> bytes \<Rightarrow> (rpc_error + unit) \<times> 'n"
  getTransactionStatus :: "'n \<Rightarrow> bytes \<Rightarrow> 'r option \<times> 'n"

text \<open>Modelled from the spec: what one call of the pipeline does to the outside,
  in order: a query of the on-chain access key, a signature requested for a
  transaction with the given nonce, a broadcast of the given bytes, a status poll
  for a transaction hash, an invalidation of a cache entry.\<close>

datatype action_taken =
    Queried access_key_id
  | Signed nat
  | Broadcast bytes
  | Polled bytes
  | Invalidated access_key_id

text \<open>Modelled from the spec: the mutable state of the core (section 5): the nonce
  cache keyed by (account, public key), which holds the last nonce issued; with it
  the network's state and the record of what was done so far.\<close>

record 'n world =
  cache :: "access_key_id \<rightharpoonup> nat"
  net :: 'n
  trace :: "action_taken list"

text \<open>Modelled from the spec: \<open>NonceAllocator.reserve\<close> (section 4.2). On a cache miss
  it queries the access key's on-chain nonce and seeds the cache with it; it then
  increments the cached value and returns it. A NetworkClient failure is surfaced
  as it is and leaves the cache alone. The whole step is atomic (section 5).\<close>

definition reserve ::
  "('n, 'r) NetworkClient \<Rightarrow> access_key_id \<Rightarrow> 'n world \<Rightarrow> (rpc_error + nat) \<times> 'n world" where
  "reserve nc k w =
     (case cache w k of
        Some c \<Rightarrow> (Inr (c + 1), w\<lparr>cache := (cache w)(k \<mapsto> c + 1)\<rparr>)
      | None \<Rightarrow>
          (case queryAccessKey nc (net w) k of
             (Inl e, n') \<Rightarrow> (Inl e, w\<lparr>net := n', trace := trace w @ [Queried k]\<rparr>)
           | (Inr onChainNonce, n') \<Rightarrow>
               (Inr (onChainNonce + 1),
                w\<lparr>cache := (cache w)(k \<mapsto> onChainNonce + 1), net := n',
                  trace := trace w @ [Queried k]\<rparr>)))"

text \<open>Modelled from the spec: \<open>NonceAllocator.invalidate\<close> (sections 4.2 and 9), which
  drops the entry so that the next \<open>reserve\<close> queries the chain again.\<close>

definition invalidate :: "access_key_id \<Rightarrow> 'n world \<Rightarrow> 'n world" where
  "invalidate k w = w\<lparr>cache := (cache w)(k := None), trace := trace w @ [Invalidated k]\<rparr>"

text \<open>Modelled from the spec: what happens around concurrent reservations: a caller
  reserves a nonce for some key, or the network changes under the client's feet
  (other clients, other devices). A schedule is any interleaving of such steps;
  \<open>run\<close> returns the result of each reservation, in the order they were served.\<close>

datatype 'n step = Reserve access_key_id | Environment "'n \<Rightarrow> 'n"

text \<open>Modelled from the spec: the NonceAllocator serving a schedule, one atomic
  reservation after the other (section 5: reservation is the sole synchronisation
  point).\<close>

fun run ::
  "('n, 'r) NetworkClient \<Rightarrow> 'n step list \<Rightarrow> 'n world \<Rightarrow>
     (access_key_id \<times> (rpc_error + nat)) list \<times> 'n world" where
  "run nc [] w = ([], w)"
| "run nc (Reserve k # steps) w =
     (case reserve nc k w of
        (res, w') \<Rightarrow> (case run nc steps w' of (rs, w'') \<Rightarrow> ((k, res) # rs, w'')))"
| "run nc (Environment f # steps) w = run nc steps (w\<lparr>net := f (net w)\<rparr>)"

text \<open>Modelled from the spec: the nonces the NonceAllocator handed out for one key, in
  the order they were served (section 8 speaks of "the returned nonces").\<close>

definition nonces_for ::
  "access_key_id \<Rightarrow> (access_key_id \<times> (rpc_error + nat)) list \<Rightarrow> nat list" where
  "nonces_for k rs = concat (map (\<lambda>(k', res). case res of Inr n \<Rightarrow> if k' = k then [n] else []
                                                        | Inl e \<Rightarrow> []) rs)"

text \<open>Modelled from the spec: the number \<open>N\<close> of reservation calls against one key in
  a schedule (section 8).\<close>

definition reservations_of :: "access_key_id \<Rightarrow> 'n step list \<Rightarrow> nat" where
  "reservations_of k steps = length (filter (\<lambda>s. case s of Reserve k' \<Rightarrow> k' = k
                                                          | Environment f \<Rightarrow> False) steps)"

text \<open>Modelled from the spec: a signed transaction envelope (sections 3 and 4.3), as
  far as the Submitter needs it: the encoded signed bytes it broadcasts and the
  transaction hash it polls for.\<close>

record SignedTransaction =
  signed_bytes :: bytes
  tx_hash :: bytes

text \<open>Modelled from the spec: the broadcasting half of \<open>Submitter.submit\<close> (section
  4.4). Each attempt broadcasts the bytes it was given. A transient failure is
  retried while attempts remain; "already exists" counts as accepted; a fatal
  failure is surfaced at once; running out of attempts is \<open>RetryExhaustedError\<close>.\<close>

fun broadcast_loop ::
  "('n, 'r) NetworkClient \<Rightarrow> nat \<Rightarrow> bytes \<Rightarrow> 'n world \<Rightarrow> (pipeline_error + unit) \<times> 'n world" where
  "broadcast_loop nc 0 b w = (Inl RetryExhaustedError, w)"
| "broadcast_loop nc (Suc attempts) b w =
     (case broadcastTransaction nc (net w) b of
        (res, n') \<Rightarrow>
          (let w' = w\<lparr>net := n', trace := trace w @ [Broadcast b]\<rparr> in
           case res of
             Inr u \<Rightarrow> (Inr (), w')
           | Inl e \<Rightarrow>
               (case classify e of
                  Transient \<Rightarrow> broadcast_loop nc attempts b w'
                | AlreadyExists \<Rightarrow> (Inr (), w')
                | Fatal \<Rightarrow> (Inl (NetworkFatalError e), w'))))"

text \<open>Modelled from the spec: the polling half of \<open>Submitter.submit\<close> (sections 4.4 and
  5): poll the status of the hash until it is terminal; when the deadline (here a
  number of polls) passes first, the result is \<open>PendingTimeout\<close>.\<close>

fun poll_loop ::
  "('n, 'r) NetworkClient \<Rightarrow> nat \<Rightarrow> bytes \<Rightarrow> 'n world \<Rightarrow> (pipeline_error + 'r) \<times> 'n world" where
  "poll_loop nc 0 h w = (Inl PendingTimeout, w)"
| "poll_loop nc (Suc polls) h w =
     (case getTransactionStatus nc (net w) h of
        (st, n') \<Rightarrow>
          (let w' = w\<lparr>net := n', trace := trace w @ [Polled h]\<rparr> in
           case st of
             Some r \<Rightarrow> (Inr r, w')
           | None \<Rightarrow> poll_loop nc polls h w'))"

text \<open>Modelled from the spec: \<open>Submitter.submit\<close> (section 4.4): broadcast, then poll
  for the outcome of the transaction's hash.\<close>

definition submit ::
  "('n, 'r) NetworkClient \<Rightarrow> nat \<Rightarrow> nat \<Rightarrow> SignedTransaction \<Rightarrow> 'n world \<Rightarrow>
     (pipeline_error + 'r) \<times> 'n world" where
  "submit nc maxAttempts maxPolls stx w =
     (case broadcast_loop nc maxAttempts (signed_bytes stx) w of
        (Inl e, w') \<Rightarrow> (Inl e, w')
      | (Inr u, w') \<Rightarrow> poll_loop nc maxPolls (tx_hash stx) w')"

text \<open>Modelled from the spec: the errors of the Signer (sections 4.1 and 4.3): the
  transaction cannot be encoded, or the KeyProvider cannot sign.\<close>

datatype signing_failure = CannotEncode | CannotSign

text \<open>Modelled from the spec: the Signer's failures as the caller sees them, in the
  taxonomy of section 7.\<close>

fun signing_error :: "signing_failure \<Rightarrow> pipeline_error" where
  "signing_error CannotEncode = EncodingError"
| "signing_error CannotSign = SigningError"

text \<open>Modelled from the spec: how a NetworkClient failure met outside the Submitter
  (the allocator's on-chain query) reaches the caller: with its own kind attached
  (section 7).\<close>

definition surfaced :: "rpc_error \<Rightarrow> pipeline_error" where
  "surfaced e = (if classify e = Transient then NetworkTransientError e else NetworkFatalError e)"

text \<open>Modelled from the spec: the Signer followed by the Submitter (section 2's
  control flow). \<open>sign_with nonce\<close> stands for building the transaction with the
  reserved nonce, encoding it and having the KeyProvider sign its hash.\<close>

definition sign_and_submit ::
  "('n, 'r) NetworkClient \<Rightarrow> (nat \<Rightarrow> signing_failure + SignedTransaction) \<Rightarrow> nat \<Rightarrow> nat \<Rightarrow>
     nat \<Rightarrow> 'n world \<Rightarrow> (pipeline_error + 'r) \<times> 'n world" where
  "sign_and_submit nc sign_with maxAttempts maxPolls nonce w =
     (let w' = w\<lparr>trace := trace w @ [Signed nonce]\<rparr> in
      case sign_with nonce of
        Inl e \<Rightarrow> (Inl (signing_error e), w')
      | Inr stx \<Rightarrow> submit nc maxAttempts maxPolls stx w')"

text \<open>Modelled from the spec: the second and last try after a nonce conflict
  (section 7): the cache entry is invalidated, a nonce is reserved again (which
  queries the chain), the transaction is signed with it and submitted; a second
  rejection for an invalid nonce is the fatal \<open>NonceConflictError\<close>.\<close>

definition retry_after_conflict ::
  "('n, 'r) NetworkClient \<Rightarrow> (nat \<Rightarrow> signing_failure + SignedTransaction) \<Rightarrow> nat \<Rightarrow> nat \<Rightarrow>
     access_key_id \<Rightarrow> 'n world \<Rightarrow> (pipeline_error + 'r) \<times> 'n world" where
  "retry_after_conflict nc sign_with maxAttempts maxPolls k w =
     (case reserve nc k (invalidate k w) of
        (Inl e, w1) \<Rightarrow> (Inl (surfaced e), w1)
      | (Inr nonce, w1) \<Rightarrow>
          (case sign_and_submit nc sign_with maxAttempts maxPolls nonce w1 of
             (res, w2) \<Rightarrow>
               if res = Inl (NetworkFatalError invalidNonce) then (Inl NonceConflictError, w2)
               else (res, w2)))"

text \<open>Modelled from the spec: the caller-facing \<open>sendTransaction\<close> up to the raw
  execution result (sections 2, 6 and 7): reserve a nonce, sign, submit; when the
  submission is rejected for an invalid nonce, recover once as above. Every other
  result is passed on unchanged.\<close>

definition sendTransaction ::
  "('n, 'r) NetworkClient \<Rightarrow> (nat \<Rightarrow> signing_failure + SignedTransaction) \<Rightarrow> nat \<Rightarrow> nat \<Rightarrow>
     access_key_id \<Rightarrow> 'n world \<Rightarrow> (pipeline_error + 'r) \<times> 'n world" where
  "sendTransaction nc sign_with maxAttempts maxPolls k w =
     (case reserve nc k w of
        (Inl e, w1) \<Rightarrow> (Inl (surfaced e), w1)
      | (Inr nonce, w1) \<Rightarrow>
          (case sign_and_submit nc sign_with maxAttempts maxPolls nonce w1 of
             (res, w2) \<Rightarrow>
               if res = Inl (NetworkFatalError invalidNonce)
               then retry_after_conflict nc sign_with maxAttempts maxPolls k w2
               else (res, w2)))"

text \<open>Modelled from the spec: the nonces the pipeline asked the KeyProvider to sign
  for, in order, read off the record of what was done.\<close>

fun signatures :: "action_taken list \<Rightarrow> nat list" where
  "signatures [] = []"
| "signatures (Signed n # as) = n # signatures as"
| "signatures (a # as) = signatures as"

text \<open>Modelled from the spec: a network that plays back a script, for the scenarios
  of section 8: the on-chain nonces it answers to access-key queries, its answers
  to broadcasts (accepted once the script is used up), and the number of status
  polls it answers with "pending" before the final result, which is determined by
  the transaction hash.\<close>

record scripted_net =
  on_chain :: "nat list"
  responses :: "(rpc_error + unit) list"
  pending :: nat

text \<open>Modelled from the spec: the NetworkClient that plays such a script back.\<close>

definition scripted :: "(bytes \<Rightarrow> 'r) \<Rightarrow> (scripted_net, 'r) NetworkClient" where
  "scripted final =
     \<lparr>queryAccessKey = (\<lambda>n k. case on_chain n of
                                 [] \<Rightarrow> (Inl notFound, n)
                               | c # cs \<Rightarrow> (Inr c, n\<lparr>on_chain := cs\<rparr>)),
      broadcastTransaction = (\<lambda>n b. case responses n of
                                 [] \<Rightarrow> (Inr (), n)
                               | r # rs \<Rightarrow> (r, n\<lparr>responses := rs\<rparr>)),
      getTransactionStatus = (\<lambda>n h. if pending n = 0 then (Some (final h), n)
                                     else (None, n\<lparr>pending := pending n - 1\<rparr>))\<rparr>"

text \<open>Modelled from the spec: a signer for the scenarios: the signed bytes and the
  hash of a transaction are determined by its nonce.\<close>

definition sign_nonce :: "nat \<Rightarrow> signing_failure + SignedTransaction" where
  "sign_nonce n = Inr \<lparr>signed_bytes = [of_nat n, 1], tx_hash = [of_nat n]\<rparr>"

text \<open>Modelled from the spec: the scenarios' account and access key (section 8:
  "account A, key K").\<close>

definition alice :: access_key_id where
  "alice = (''alice.testnet'', ''ed25519:K'')"

text \<open>Modelled from the spec: the state a scenario starts from: an empty nonce cache,
  a network script, nothing done yet.\<close>

definition fresh :: "nat list \<Rightarrow> (rpc_error + unit) list \<Rightarrow> nat \<Rightarrow> scripted_net world" where
  "fresh chain answers polls =
     \<lparr>cache = Map.empty,
      net = \<lparr>on_chain = chain, responses = answers, pending = polls\<rparr>,
      trace = []\<rparr>"

section \<open>The transaction encoder of the specification\<close>

text \<open>
  The encoder is described by the specification (sections 3 and 4.1) but its code is
  not among the sources verified here. The definitions of this section are written
  from the specification's words; where it leaves a width or a field set open, the
  choice made is said, or it is a parameter.
\<close>

text \<open>Modelled from the spec: a fixed-width little-endian integer of the
  TransactionEncoder (section 4.1): the \<open>k\<close> low-order bytes of \<open>n\<close>, the least
  significant first.\<close>

fun le :: "nat \<Rightarrow> nat \<Rightarrow> bytes" where
  "le 0 n = []"
| "le (Suc k) n = of_nat (n mod 256) # le k (n div 256)"

text \<open>Modelled from the spec: the typed fields the encoder serialises (section 3):
  unsigned 64-bit integers (nonces, gas), unsigned 128-bit integers (amounts) and
  byte strings (names, argument blobs, keys, hashes).\<close>

datatype field = U64 "64 word" | U128 "128 word" | Blob bytes

text \<open>Modelled from the spec: the type of a field, by which a variant's "fixed set of
  typed fields" (section 3) is declared.\<close>

datatype field_kind = KU64 | KU128 | KBlob

text \<open>Modelled from the spec: the type of a given field of the encoder's input.\<close>

fun kind_of :: "field \<Rightarrow> field_kind" where
  "kind_of (U64 w) = KU64"
| "kind_of (U128 w) = KU128"
| "kind_of (Blob bs) = KBlob"

text \<open>Modelled from the spec: the size constraint whose violation makes the encoder
  fail (section 4.1): the length of a byte string must fit its length prefix. The
  specification does not give the prefix's width; four bytes are taken. The
  protocol's own limits (the maximal length of a method name, say) are not given
  either and are left out: they would only exclude more transactions.\<close>

fun fits :: "field \<Rightarrow> bool" where
  "fits (U64 w) = True"
| "fits (U128 w) = True"
| "fits (Blob bs) = (length bs < 256 ^ 4)"

text \<open>Modelled from the spec: the encoding of one field (section 4.1): a numeric field
  as a fixed-width little-endian integer, a byte string behind its length.\<close>

fun put :: "field \<Rightarrow> bytes" where
  "put (U64 w) = le 8 (unat w)"
| "put (U128 w) = le 16 (unat w)"
| "put (Blob bs) = le 4 (length bs) @ bs"

text \<open>Modelled from the spec: the variants of an Action (section 3).\<close>

datatype action_tag =
    Transfer | FunctionCall | CreateAccount | DeleteAccount | AddKey | DeleteKey
  | DeployContract | Stake | Delegate

text \<open>Modelled from the spec: the discriminant byte of an Action variant (section
  4.1); the variants are numbered in the order section 3 lists them.\<close>

fun discriminant :: "action_tag \<Rightarrow> 8 word" where
  "discriminant Transfer = 0"
| "discriminant FunctionCall = 1"
| "discriminant CreateAccount = 2"
| "discriminant DeleteAccount = 3"
| "discriminant AddKey = 4"
| "discriminant DeleteKey = 5"
| "discriminant DeployContract = 6"
| "discriminant Stake = 7"
| "discriminant Delegate = 8"

text \<open>Modelled from the spec: an Action (section 3): its variant and that variant's
  fields in declaration order. Which fields a variant declares is not listed by
  the specification; it is the parameter \<open>declared\<close> below.\<close>

record action =
  tag :: action_tag
  payload :: "field list"

text \<open>Modelled from the spec: the encoding of an Action (section 4.1): the discriminant
  byte, then the variant's fields in declaration order.\<close>

definition put_action :: "action \<Rightarrow> bytes" where
  "put_action a = discriminant (tag a) # concat (map put (payload a))"

text \<open>Modelled from the spec: a Transaction (section 3). Anything else attached to a
  transaction value lives in the record's extension and is no part of the logical
  transaction.\<close>

record Transaction =
  signerId :: string
  publicKey :: bytes
  nonce :: "64 word"
  receiverId :: string
  blockHash :: bytes
  actions :: "action list"

text \<open>Modelled from the spec: an account identifier, an opaque string (section 3), as
  the bytes of its characters.\<close>

definition bytes_of :: "string \<Rightarrow> bytes" where
  "bytes_of s = map of_char s"

text \<open>Modelled from the spec: the fields of a transaction ahead of its actions, in the
  order of section 3; identifiers, key and block hash are byte strings.\<close>

definition header :: "'z Transaction_scheme \<Rightarrow> field list" where
  "header tx = [Blob (bytes_of (signerId tx)), Blob (publicKey tx), U64 (nonce tx),
                Blob (bytes_of (receiverId tx)), Blob (blockHash tx)]"

text \<open>Modelled from the spec: the transactions the encoder accepts (section 4.1): every
  field within its size constraint, the number of actions included.\<close>

definition encodable :: "'z Transaction_scheme \<Rightarrow> bool" where
  "encodable tx =
     (list_all fits (header tx) \<and> length (actions tx) < 256 ^ 4
      \<and> list_all (\<lambda>a. list_all fits (payload a)) (actions tx))"

text \<open>Modelled from the spec: \<open>TransactionEncoder.encode\<close> (section 4.1): the fields in
  their fixed order, then the action list, which is of variable length and so
  stands behind its length like a byte string; \<open>EncodingError\<close> when a size
  constraint is violated.\<close>

definition encode :: "'z Transaction_scheme \<Rightarrow> pipeline_error + bytes" where
  "encode tx =
     (if encodable tx
      then Inr (concat (map put (header tx)) @ le 4 (length (actions tx))
                @ concat (map put_action (actions tx)))
      else Inl EncodingError)"

text \<open>Modelled from the spec: an action that has exactly the typed fields its variant
  declares (section 3), each within its size constraint.\<close>

definition well_formed :: "(action_tag \<Rightarrow> field_kind list) \<Rightarrow> action \<Rightarrow> bool" where
  "well_formed declared a =
     (map kind_of (payload a) = declared (tag a) \<and> list_all fits (payload a))"

text \<open>Modelled from the spec: a transaction all of whose actions have the typed fields
  their variants declare (section 3).\<close>

definition conforms :: "(action_tag \<Rightarrow> field_kind list) \<Rightarrow> 'z Transaction_scheme \<Rightarrow> bool" where
  "conforms declared tx =
     list_all (\<lambda>a. map kind_of (payload a) = declared (tag a)) (actions tx)"

text \<open>Modelled from the spec: a declaration of fields for section 8's scenario: a
  Transfer carries an amount, a FunctionCall a method name, arguments, gas and an
  amount.\<close>

definition declared_example :: "action_tag \<Rightarrow> field_kind list" where
  "declared_example t =
     (case t of Transfer \<Rightarrow> [KU128] | FunctionCall \<Rightarrow> [KBlob, KBlob, KU64, KU128] | _ \<Rightarrow> [])"

text \<open>Modelled from the spec: section 8's transaction: a Transfer of one unit from one
  account to another, with nonce 6.\<close>

definition transfer_example :: Transaction where
  "transfer_example =
     \<lparr>signerId = ''a.testnet'', publicKey = [0, 7], nonce = 6, receiverId = ''b.testnet'',
      blockHash = [9, 9], actions = [\<lparr>tag = Transfer, payload = [U128 1]\<rparr>]\<rparr>"

section \<open>Theorems\<close>

subsection \<open>lib/utils/logging.js: what reaches the console\<close>

lemma foldl_collect:
  "foldl (\<lambda>acc it. if P it then acc @ [g it] else acc) acc xs = acc @ map g (filter P xs)"
  by (induction xs arbitrary: acc) simp_all

lemma warnings_append [simp]: "warnings (xs @ ys) = warnings xs @ warnings ys"
  by (induction xs rule: warnings.induct) simp_all

lemma logged_append [simp]: "logged p (xs @ ys) = logged p xs @ logged p ys"
  by (induction p xs rule: logged.induct) simp_all

lemma warnings_of_logs [simp]: "warnings (map (\<lambda>l. console_log (f l)) ls) = []"
  by (induction ls) simp_all

lemma logged_of_logs [simp]:
  "logged [CHR 0x09] (map (\<lambda>l. console_log (CHR 0x09 # f l)) ls) = map (\<lambda>l. CHR 0x09 # f l) ls"
  by (induction ls) (simp_all add: startsWith_def)

lemma warnings_printResult:
  "warnings (printResult False toString c r) =
     (case failure r of
        None \<Rightarrow> []
      | Some e \<Rightarrow> [CHR 0x09 # ''Failure ['' @ c @ '']: '' @ toString e])"
  by (simp add: printResult_def printTxOutcomeLogs_when_def split: option.splits)

lemma logged_printResult:
  "logged [CHR 0x09] (printResult False toString c r) =
     map (\<lambda>l. CHR 0x09 # ''Log ['' @ c @ '']: '' @ l) (logs r)"
  by (simp add: printResult_def printTxOutcomeLogs_when_def startsWith_def split: option.splits)

lemma flatLogs_eq:
  "flatLogs parseRpcError final =
     map (\<lambda>it. \<lparr>receiptIds = receipt_ids (outcome it),
                logs = ExecutionOutcome.logs (outcome it),
                failure = map_option parseRpcError (Failure (status (outcome it)))\<rparr>)
       (filter (\<lambda>it. 0 < length (ExecutionOutcome.logs (outcome it))
                     \<or> isFailure (status (outcome it)))
          (transaction_outcome final # receipts_outcome final))"
  unfolding flatLogs_def by (simp only: foldl_collect append_Nil)

lemma warnings_traversal:
  "warnings (concat (map (printResult False toString c)
       (map (\<lambda>it. \<lparr>receiptIds = receipt_ids (outcome it),
                  logs = ExecutionOutcome.logs (outcome it),
                  failure = map_option parseRpcError (Failure (status (outcome it)))\<rparr>)
          (filter (\<lambda>it. 0 < length (ExecutionOutcome.logs (outcome it))
                        \<or> isFailure (status (outcome it))) xs))))
   = concat (map (\<lambda>it. if 0 < length (ExecutionOutcome.logs (outcome it))
                            \<or> isFailure (status (outcome it))
                         then (case Failure (status (outcome it)) of
                                 None \<Rightarrow> []
                               | Some v \<Rightarrow>
                                   [CHR 0x09 # ''Failure ['' @ c @ '']: ''
                                      @ toString (parseRpcError v)])
                         else [])
               xs)"
  by (induction xs) (auto simp: warnings_printResult split: option.splits)

lemma in_concat_map: "x \<in> set xs \<Longrightarrow> y \<in> set (f x) \<Longrightarrow> y \<in> set (concat (map f xs))"
  by auto

lemma isFailure_object:
  "Failure st = Some v \<Longrightarrow> typeof_object v \<Longrightarrow> isFailure st"
  by (cases st) simp_all

lemma logged_traversal:
  "logged [CHR 0x09] (concat (map (printResult False toString c)
       (map (\<lambda>it. \<lparr>receiptIds = receipt_ids (outcome it),
                  logs = ExecutionOutcome.logs (outcome it),
                  failure = map_option parseRpcError (Failure (status (outcome it)))\<rparr>)
          (filter (\<lambda>it. 0 < length (ExecutionOutcome.logs (outcome it))
                        \<or> isFailure (status (outcome it))) xs))))
   = map (\<lambda>l. CHR 0x09 # ''Log ['' @ c @ '']: '' @ l)
       (concat (map (\<lambda>it. ExecutionOutcome.logs (outcome it)) xs))"
  by (induction xs) (auto simp: logged_printResult)

text \<open>
  Claim C1, as amended. As the module is shipped, with \<open>SUPPRESS_LOGGING\<close> true,
  \<open>printTxOutcomeLogsAndFailures\<close> returns at once for every outcome: it inspects
  no node and reports nothing. The traversal behind that guard (the body with the
  constant false) visits the root and then every receipt outcome in the order the
  network reported them. It keeps a node that has logs or whose status carries a
  \<^verbatim>\<open>Failure\<close> that is an object, and its warnings are exactly, in that order, one
  \<open>Failure\<close> line with the parsed error for every kept node whose status carries
  a \<^verbatim>\<open>Failure\<close>. So a receipt whose \<^verbatim>\<open>Failure\<close> is an object, as the RPC sends
  it, is reported whatever the root's status is; a \<^verbatim>\<open>Failure\<close> that is not an
  object is reported only when its node has logs.
\<close>

theorem printTxOutcomeLogsAndFailures_suppressed_else_every_failure:
  "printTxOutcomeLogsAndFailures parseRpcError toString c final = []
   \<and> warnings (printTxOutcomeLogsAndFailures_when False parseRpcError toString c final)
     = concat (map (\<lambda>it. if 0 < length (ExecutionOutcome.logs (outcome it))
                              \<or> isFailure (status (outcome it))
                           then (case Failure (status (outcome it)) of
                                   None \<Rightarrow> []
                                 | Some v \<Rightarrow>
                                     [CHR 0x09 # ''Failure ['' @ c @ '']: ''
                                        @ toString (parseRpcError v)])
                           else [])
                 (transaction_outcome final # receipts_outcome final))
   \<and> (\<forall>it v. it \<in> set (transaction_outcome final # receipts_outcome final)
          \<and> Failure (status (outcome it)) = Some v \<and> typeof_object v \<longrightarrow>
        CHR 0x09 # ''Failure ['' @ c @ '']: '' @ toString (parseRpcError v)
          \<in> set (warnings
                  (printTxOutcomeLogsAndFailures_when False parseRpcError toString c final)))"
proof (intro conjI allI impI)
  show "printTxOutcomeLogsAndFailures parseRpcError toString c final = []"
    by (simp add: printTxOutcomeLogsAndFailures_def SUPPRESS_LOGGING_def
          printTxOutcomeLogsAndFailures_when_def)
next
  have b: "printTxOutcomeLogsAndFailures_when False parseRpcError toString c final
        = concat (map (printResult False toString c) (flatLogs parseRpcError final))"
    by (simp add: printTxOutcomeLogsAndFailures_when_def)
  show w: "warnings (printTxOutcomeLogsAndFailures_when False parseRpcError toString c final)
     = concat (map (\<lambda>it. if 0 < length (ExecutionOutcome.logs (outcome it))
                              \<or> isFailure (status (outcome it))
                           then (case Failure (status (outcome it)) of
                                   None \<Rightarrow> []
                                 | Some v \<Rightarrow>
                                     [CHR 0x09 # ''Failure ['' @ c @ '']: ''
                                        @ toString (parseRpcError v)])
                           else [])
                 (transaction_outcome final # receipts_outcome final))"
    using b by (simp only: flatLogs_eq warnings_traversal)
  fix it v
  assume h: "it \<in> set (transaction_outcome final # receipts_outcome final)
          \<and> Failure (status (outcome it)) = Some v \<and> typeof_object v"
  then have f: "isFailure (status (outcome it))" using isFailure_object by blast
  from h have m: "it \<in> set (transaction_outcome final # receipts_outcome final)" by simp
  show "CHR 0x09 # ''Failure ['' @ c @ '']: '' @ toString (parseRpcError v)
          \<in> set (warnings
                  (printTxOutcomeLogsAndFailures_when False parseRpcError toString c final))"
    unfolding w by (rule in_concat_map [OF m]) (simp add: f h)
qed

text \<open>On the scenario's graph: nothing as shipped, and behind the guard the one
  warning of the failed receipt. On the second graph the string \<^verbatim>\<open>Failure\<close> of the
  receipt without logs is passed over, the one of the receipt with logs is warned
  about.\<close>

theorem printTxOutcomeLogsAndFailures_masked_failure_witness:
  "printTxOutcomeLogsAndFailures id js_text ''dapp.testnet'' masked_failure = []
   \<and> warnings (printTxOutcomeLogsAndFailures_when False id js_text ''dapp.testnet''
                 masked_failure)
     = [CHR 0x09 # ''Failure [dapp.testnet]: FunctionCallError'']
   \<and> warnings (printTxOutcomeLogsAndFailures_when False id js_text ''dapp.testnet''
                 string_failures)
     = [CHR 0x09 # ''Failure [dapp.testnet]: logged'']"
  using printTxOutcomeLogsAndFailures_suppressed_else_every_failure
          [of id js_text "''dapp.testnet''" masked_failure]
        printTxOutcomeLogsAndFailures_suppressed_else_every_failure
          [of id js_text "''dapp.testnet''" string_failures]
  by (simp add: masked_failure_def string_failures_def)

text \<open>The claim as written fails on the scenario's graph: the receipt's failure is not
  among the warnings of the exported function.\<close>

theorem printTxOutcomeLogsAndFailures_reports_no_failure:
  "CHR 0x09 # ''Failure [dapp.testnet]: FunctionCallError''
     \<notin> set (warnings
              (printTxOutcomeLogsAndFailures id js_text ''dapp.testnet'' masked_failure))"
  by (simp add: printTxOutcomeLogsAndFailures_def SUPPRESS_LOGGING_def
        printTxOutcomeLogsAndFailures_when_def)

text \<open>
  Claim C2, as amended. As the module is shipped, with \<open>SUPPRESS_LOGGING\<close> true,
  both log-printing functions emit nothing, for every input. Behind that guard (the
  bodies with the constant false) \<open>printTxOutcomeLogs\<close> writes one line per given
  log, in order, and the log lines \<open>printTxOutcomeLogsAndFailures\<close> writes (the
  tab-indented \<^verbatim>\<open>console.log\<close> lines) are exactly the concatenation of every
  node's logs, the root's first and then each receipt's in the order the network
  reported the receipts.
\<close>

theorem log_printing_suppressed_else_all_logs_in_order:
  "printTxOutcomeLogs c ls pre = []
   \<and> printTxOutcomeLogsAndFailures parseRpcError toString c final = []
   \<and> printTxOutcomeLogs_when False c ls pre
     = map (\<lambda>l. console_log (pre @ ''Log ['' @ c @ '']: '' @ l)) ls
   \<and> logged [CHR 0x09]
       (printTxOutcomeLogsAndFailures_when False parseRpcError toString c final)
     = map (\<lambda>l. CHR 0x09 # ''Log ['' @ c @ '']: '' @ l)
         (concat (map (\<lambda>it. ExecutionOutcome.logs (outcome it))
                    (transaction_outcome final # receipts_outcome final)))"
proof (intro conjI)
  show "printTxOutcomeLogs c ls pre = []"
    by (simp add: printTxOutcomeLogs_def SUPPRESS_LOGGING_def printTxOutcomeLogs_when_def)
  show "printTxOutcomeLogsAndFailures parseRpcError toString c final = []"
    by (simp add: printTxOutcomeLogsAndFailures_def SUPPRESS_LOGGING_def
          printTxOutcomeLogsAndFailures_when_def)
  show "printTxOutcomeLogs_when False c ls pre
        = map (\<lambda>l. console_log (pre @ ''Log ['' @ c @ '']: '' @ l)) ls"
    by (simp add: printTxOutcomeLogs_when_def)
  have "printTxOutcomeLogsAndFailures_when False parseRpcError toString c final
        = concat (map (printResult False toString c) (flatLogs parseRpcError final))"
    by (simp add: printTxOutcomeLogsAndFailures_when_def)
  then show "logged [CHR 0x09]
       (printTxOutcomeLogsAndFailures_when False parseRpcError toString c final)
     = map (\<lambda>l. CHR 0x09 # ''Log ['' @ c @ '']: '' @ l)
         (concat (map (\<lambda>it. ExecutionOutcome.logs (outcome it))
                    (transaction_outcome final # receipts_outcome final)))"
    by (simp only: flatLogs_eq logged_traversal)
qed

theorem log_printing_masked_failure_witness:
  "printTxOutcomeLogs ''dapp.testnet'' [''root log''] [] = []
   \<and> printTxOutcomeLogsAndFailures id js_text ''dapp.testnet'' masked_failure = []
   \<and> logged [CHR 0x09]
       (printTxOutcomeLogsAndFailures_when False id js_text ''dapp.testnet'' masked_failure)
     = [CHR 0x09 # ''Log [dapp.testnet]: root log'',
        CHR 0x09 # ''Log [dapp.testnet]: receipt log'']"
  using log_printing_suppressed_else_all_logs_in_order
          [of "''dapp.testnet''" "[''root log'']" "[]" id js_text masked_failure]
  by (simp add: masked_failure_def)

text \<open>The claim as written fails on that graph: the exported function emits no log
  line, although already the root wrote one.\<close>

theorem log_printing_emits_no_logs:
  "logged [CHR 0x09]
     (printTxOutcomeLogsAndFailures id js_text ''dapp.testnet'' masked_failure) = []
   \<and> ExecutionOutcome.logs (outcome (transaction_outcome masked_failure)) = [''root log'']"
  by (simp add: printTxOutcomeLogsAndFailures_def SUPPRESS_LOGGING_def
        printTxOutcomeLogsAndFailures_when_def masked_failure_def)

subsection \<open>TypedError keeps a non-empty type and defaults the rest\<close>

lemma or_default_simps:
  "or_default None d = d"
  "or_default (Some []) d = d"
  "s \<noteq> [] \<Longrightarrow> or_default (Some s) d = s"
  by (simp_all add: or_default_def)

text \<open>
  Claim C3, as amended. A \<open>TypedError\<close> built with a non-empty type string carries
  exactly that string in its \<open>type\<close> field. When the type argument is left out or
  is the empty string, the field is the generic \<open>''UntypedError''\<close>.
\<close>

theorem TypedError_type_kept_or_defaulted:
  "(t \<noteq> [] \<longrightarrow> TypedError.type (new_TypedError msg (Some t) ctx) = t)
   \<and> TypedError.type (new_TypedError msg None ctx) = ''UntypedError''
   \<and> TypedError.type (new_TypedError msg (Some []) ctx) = ''UntypedError''"
  by (simp add: new_TypedError_def or_default_simps)

theorem TypedError_type_kept_witness:
  "''InvalidNonce'' \<noteq> []
   \<and> TypedError.type
        (new_TypedError (Some ''nonce too small'') (Some ''InvalidNonce'') None)
      = ''InvalidNonce''"
  using TypedError_type_kept_or_defaulted
          [of "''InvalidNonce''" "Some ''nonce too small''" None]
  by simp

text \<open>
  The claim as written fails where the raiser supplies the empty string: the error
  comes out labelled \<open>''UntypedError''\<close>, not with the type it was given.
\<close>

theorem TypedError_empty_type_relabelled:
  "TypedError.type (new_TypedError (Some ''boom'') (Some []) None) \<noteq> []"
  by (simp add: new_TypedError_def or_default_def)

subsection \<open>Connection.fromConfig\<close>

lemma getProvider_cases:
  "ProviderConfig.type c = None \<Longrightarrow> getProvider c = Inr (ProviderObject c)"
  "ProviderConfig.type c = Some ''JsonRpcProvider'' \<Longrightarrow>
     getProvider c = Inr (JsonRpcProvider (args c))"
  "ProviderConfig.type c = Some t \<Longrightarrow> t \<noteq> ''JsonRpcProvider'' \<Longrightarrow>
     getProvider c = Inl (Error (''Unknown provider type '' @ t))"
  by (simp_all add: getProvider_def)

lemma getSigner_cases:
  "SignerConfig.type c = None \<Longrightarrow> snd (getSigner c) = Inr (SignerObject c)"
  "SignerConfig.type c = Some ''InMemorySigner'' \<Longrightarrow>
     snd (getSigner c) = Inr (InMemorySigner (keyStore c))"
  "SignerConfig.type c = Some t \<Longrightarrow> t \<noteq> ''InMemorySigner'' \<Longrightarrow>
     snd (getSigner c) = Inl (Error (''Unknown signer type '' @ t))"
  by (simp_all add: getSigner_def)

lemma fromConfig_provider_error:
  "getProvider (ConnectionConfig.provider cfg) = Inl e \<Longrightarrow> snd (fromConfig cfg) = Inl e"
  by (simp add: fromConfig_def)

lemma fromConfig_signer_error:
  "getProvider (ConnectionConfig.provider cfg) = Inr p \<Longrightarrow>
   snd (getSigner (ConnectionConfig.signer cfg)) = Inl e \<Longrightarrow>
   snd (fromConfig cfg) = Inl e"
  by (cases "getSigner (ConnectionConfig.signer cfg)") (simp add: fromConfig_def)

lemma fromConfig_returns:
  "snd (fromConfig cfg) = Inr c \<Longrightarrow>
     getProvider (ConnectionConfig.provider cfg) = Inr (Connection.provider c)
     \<and> snd (getSigner (ConnectionConfig.signer cfg)) = Inr (Connection.signer c)
     \<and> Connection.networkId c = ConnectionConfig.networkId cfg
     \<and> Connection.jsvmAccountId c = ConnectionConfig.jsvmAccountId cfg"
  by (cases "getSigner (ConnectionConfig.signer cfg)")
     (auto simp: fromConfig_def split: sum.splits)

lemma fromConfig_signer_throws:
  assumes "SignerConfig.type (ConnectionConfig.signer cfg) = Some t" "t \<noteq> ''InMemorySigner''"
  shows "\<exists>e. snd (fromConfig cfg) = Inl e"
proof (cases "getProvider (ConnectionConfig.provider cfg)")
  case (Inl e)
  then show ?thesis using fromConfig_provider_error by blast
next
  case (Inr p)
  then show ?thesis
    using fromConfig_signer_error [OF Inr getSigner_cases(3) [OF assms]] by blast
qed

lemma fromConfig_builds:
  "getProvider (ConnectionConfig.provider cfg) = Inr p \<Longrightarrow>
   getSigner (ConnectionConfig.signer cfg) = (out, Inr s) \<Longrightarrow>
   fromConfig cfg
     = (out, Inr \<lparr>Connection.networkId = ConnectionConfig.networkId cfg, provider = p,
                  signer = s, jsvmAccountId = ConnectionConfig.jsvmAccountId cfg\<rparr>)"
  by (simp add: fromConfig_def)

lemma getSigner_console:
  "SignerConfig.type c = None \<Longrightarrow> getSigner c = ([], Inr (SignerObject c))"
  "SignerConfig.type c = Some ''InMemorySigner'' \<Longrightarrow>
     getSigner c = ([(''inmemory signer '', keyStore c)], Inr (InMemorySigner (keyStore c)))"
  by (simp_all add: getSigner_def)

text \<open>
  Claim C10. Let \<open>cfg\<close> be any configuration. A provider (signer) description whose
  \<open>type\<close> is undefined is used as it is; type \<open>''JsonRpcProvider''\<close>
  (\<open>''InMemorySigner''\<close>) gives a new instance of that class built from the
  description's \<open>args\<close> (\<open>keyStore\<close>). Whenever both descriptions have one of
  these types, \<open>fromConfig\<close> returns a connection that holds exactly the provider
  and the signer so obtained and the configuration's \<open>networkId\<close> and
  \<open>jsvmAccountId\<close>, unchanged. Any other provider type makes \<open>fromConfig\<close>
  throw the \<open>Error\<close> naming it, and any other signer type makes \<open>fromConfig\<close>
  throw as well (the signer's \<open>Error\<close> when the provider was accepted). And
  whenever \<open>fromConfig\<close> returns a connection, its provider and signer are the
  ones so obtained and its two identifiers are the configuration's.
\<close>

theorem fromConfig_resolves_provider_and_signer:
  fixes cfg :: "(('a, 'y) ProviderConfig_scheme, ('k, 'z) SignerConfig_scheme) ConnectionConfig"
  shows
  "(ProviderConfig.type (ConnectionConfig.provider cfg) = None \<longrightarrow>
      getProvider (ConnectionConfig.provider cfg)
        = Inr (ProviderObject (ConnectionConfig.provider cfg)))
   \<and> (ProviderConfig.type (ConnectionConfig.provider cfg) = Some ''JsonRpcProvider'' \<longrightarrow>
      getProvider (ConnectionConfig.provider cfg)
        = Inr (JsonRpcProvider (args (ConnectionConfig.provider cfg))))
   \<and> (\<forall>t. ProviderConfig.type (ConnectionConfig.provider cfg) = Some t
          \<and> t \<noteq> ''JsonRpcProvider'' \<longrightarrow>
      snd (fromConfig cfg) = Inl (Error (''Unknown provider type '' @ t)))
   \<and> (SignerConfig.type (ConnectionConfig.signer cfg) = None \<longrightarrow>
      snd (getSigner (ConnectionConfig.signer cfg))
        = Inr (SignerObject (ConnectionConfig.signer cfg)))
   \<and> (SignerConfig.type (ConnectionConfig.signer cfg) = Some ''InMemorySigner'' \<longrightarrow>
      snd (getSigner (ConnectionConfig.signer cfg))
        = Inr (InMemorySigner (keyStore (ConnectionConfig.signer cfg))))
   \<and> (\<forall>t. SignerConfig.type (ConnectionConfig.signer cfg) = Some t
          \<and> t \<noteq> ''InMemorySigner'' \<longrightarrow>
      (\<exists>e. snd (fromConfig cfg) = Inl e)
      \<and> (\<forall>p. getProvider (ConnectionConfig.provider cfg) = Inr p \<longrightarrow>
            snd (fromConfig cfg) = Inl (Error (''Unknown signer type '' @ t))))
   \<and> (\<forall>c. snd (fromConfig cfg) = Inr c \<longrightarrow>
      getProvider (ConnectionConfig.provider cfg) = Inr (Connection.provider c)
      \<and> snd (getSigner (ConnectionConfig.signer cfg)) = Inr (Connection.signer c)
      \<and> Connection.networkId c = ConnectionConfig.networkId cfg
      \<and> Connection.jsvmAccountId c = ConnectionConfig.jsvmAccountId cfg)
   \<and> (\<forall>p s.
        (ProviderConfig.type (ConnectionConfig.provider cfg) = None
           \<and> p = ProviderObject (ConnectionConfig.provider cfg)
         \<or> ProviderConfig.type (ConnectionConfig.provider cfg) = Some ''JsonRpcProvider''
           \<and> p = JsonRpcProvider (args (ConnectionConfig.provider cfg)))
        \<and> (SignerConfig.type (ConnectionConfig.signer cfg) = None
           \<and> s = SignerObject (ConnectionConfig.signer cfg)
         \<or> SignerConfig.type (ConnectionConfig.signer cfg) = Some ''InMemorySigner''
           \<and> s = InMemorySigner (keyStore (ConnectionConfig.signer cfg))) \<longrightarrow>
        snd (fromConfig cfg)
          = Inr \<lparr>Connection.networkId = ConnectionConfig.networkId cfg, provider = p,
                 signer = s, jsvmAccountId = ConnectionConfig.jsvmAccountId cfg\<rparr>)"
proof (intro conjI allI impI)
  fix t
  assume "ProviderConfig.type (ConnectionConfig.provider cfg) = Some t \<and> t \<noteq> ''JsonRpcProvider''"
  then show "snd (fromConfig cfg) = Inl (Error (''Unknown provider type '' @ t))"
    using fromConfig_provider_error getProvider_cases(3) by blast
next
  fix t
  assume a: "SignerConfig.type (ConnectionConfig.signer cfg) = Some t \<and> t \<noteq> ''InMemorySigner''"
  then show "\<exists>e. snd (fromConfig cfg) = Inl e"
    using fromConfig_signer_throws by blast
  fix p
  assume "getProvider (ConnectionConfig.provider cfg) = Inr p"
  then show "snd (fromConfig cfg) = Inl (Error (''Unknown signer type '' @ t))"
    using a fromConfig_signer_error getSigner_cases(3) by blast
next
  fix p s
  assume h:
    "(ProviderConfig.type (ConnectionConfig.provider cfg) = None
           \<and> p = ProviderObject (ConnectionConfig.provider cfg)
         \<or> ProviderConfig.type (ConnectionConfig.provider cfg) = Some ''JsonRpcProvider''
           \<and> p = JsonRpcProvider (args (ConnectionConfig.provider cfg)))
        \<and> (SignerConfig.type (ConnectionConfig.signer cfg) = None
           \<and> s = SignerObject (ConnectionConfig.signer cfg)
         \<or> SignerConfig.type (ConnectionConfig.signer cfg) = Some ''InMemorySigner''
           \<and> s = InMemorySigner (keyStore (ConnectionConfig.signer cfg)))"
  then have gp: "getProvider (ConnectionConfig.provider cfg) = Inr p"
    using getProvider_cases(1,2) by blast
  from h have "\<exists>out. getSigner (ConnectionConfig.signer cfg) = (out, Inr s)"
    using getSigner_console by blast
  then obtain out where gs: "getSigner (ConnectionConfig.signer cfg) = (out, Inr s)" ..
  show "snd (fromConfig cfg)
          = Inr \<lparr>Connection.networkId = ConnectionConfig.networkId cfg, provider = p,
                 signer = s, jsvmAccountId = ConnectionConfig.jsvmAccountId cfg\<rparr>"
    by (simp add: fromConfig_builds [OF gp gs])
qed (simp_all add: getProvider_cases getSigner_cases fromConfig_returns)

text \<open>
  A configuration that names both classes: the call returns a connection holding the
  two new instances and the configuration's identifiers, and the signer branch's
  console line is emitted.
\<close>

theorem fromConfig_resolves_witness:
  "fromConfig
     \<lparr>ConnectionConfig.networkId = ''testnet'',
      provider = \<lparr>ProviderConfig.type = Some ''JsonRpcProvider'',
                   args = ''https://rpc.testnet.near.org''\<rparr>,
      signer = \<lparr>SignerConfig.type = Some ''InMemorySigner'', keyStore = ''ks''\<rparr>,
      jsvmAccountId = Some ''jsvm.testnet''\<rparr>
   = ([(''inmemory signer '', ''ks'')],
      Inr \<lparr>Connection.networkId = ''testnet'',
           provider = JsonRpcProvider ''https://rpc.testnet.near.org'',
           signer = InMemorySigner ''ks'',
           jsvmAccountId = Some ''jsvm.testnet''\<rparr>)"
  using fromConfig_resolves_provider_and_signer
          [of "\<lparr>ConnectionConfig.networkId = ''testnet'',
                 provider = \<lparr>ProviderConfig.type = Some ''JsonRpcProvider'',
                              args = ''https://rpc.testnet.near.org''\<rparr>,
                 signer = \<lparr>SignerConfig.type = Some ''InMemorySigner'', keyStore = ''ks''\<rparr>,
                 jsvmAccountId = Some ''jsvm.testnet''\<rparr>"]
  by (simp add: fromConfig_def getProvider_def getSigner_def)

subsection \<open>The browser key store\<close>

lemma split_not_Nil: "split c s \<noteq> []"
  by (induction s) (auto split: list.splits)

lemma constructor_loaded_settled: "pending_load s = None \<Longrightarrow> constructor_loaded s = s"
  by (simp add: constructor_loaded_def)















text \<open>
  Claim C9. In every state of the store (whatever \<open>setKey\<close> has put into it) the
  generator \<open>storageKeys\<close> yields nothing, so \<open>getNetworks\<close> returns the empty
  list, \<open>getAccounts\<close> returns the empty list for every network, and \<open>clear\<close>
  returns normally and leaves the state, with every stored entry, as it was.
\<close>

theorem storageKeys_yields_nothing:
  "yielded (storageKeys s) = []
   \<and> getNetworks s = []
   \<and> getAccounts n s = []
   \<and> clear s = Inr s"
  by (simp add: storageKeys_def getNetworks_def getAccounts_def clear_def)

subsection \<open>The nonce allocator of the specification\<close>

lemma reserve_hit:
  "cache w k = Some c \<Longrightarrow> reserve nc k w = (Inr (c + 1), w\<lparr>cache := (cache w)(k \<mapsto> c + 1)\<rparr>)"
  by (simp add: reserve_def)

lemma reserve_miss:
  "cache w k = None \<Longrightarrow> queryAccessKey nc (net w) k = (Inr base, n') \<Longrightarrow>
     reserve nc k w =
       (Inr (base + 1),
        w\<lparr>cache := (cache w)(k \<mapsto> base + 1), net := n', trace := trace w @ [Queried k]\<rparr>)"
  by (simp add: reserve_def)

lemma reserve_other:
  "k' \<noteq> k \<Longrightarrow> cache (snd (reserve nc k' w)) k = cache w k"
  by (auto simp: reserve_def split: option.splits prod.splits sum.splits)

lemma nonces_for_Cons:
  "nonces_for k ((k', res) # rs) =
     (case res of Inr n \<Rightarrow> if k' = k then [n] else [] | Inl e \<Rightarrow> []) @ nonces_for k rs"
  by (simp add: nonces_for_def)

lemma nonces_for_Nil: "nonces_for k [] = []"
  by (simp add: nonces_for_def)

lemma reservations_of_simps:
  "reservations_of k [] = 0"
  "reservations_of k (Reserve k' # steps) = (if k' = k then 1 else 0) + reservations_of k steps"
  "reservations_of k (Environment f # steps) = reservations_of k steps"
  by (simp_all add: reservations_of_def)

lemma upt_step: "[c + 1 ..< c + 1 + (1 + m)] = (c + 1) # [c + 1 + 1 ..< c + 1 + 1 + (m::nat)]"
  by (simp add: upt_rec [of "Suc c"])

lemma run_Reserve:
  "reserve nc k w = (res, w') \<Longrightarrow>
     fst (run nc (Reserve k # steps) w) = (k, res) # fst (run nc steps w')
     \<and> snd (run nc (Reserve k # steps) w) = snd (run nc steps w')"
  by (simp split: prod.splits)

lemma run_cached:
  "cache w k = Some c \<Longrightarrow>
     nonces_for k (fst (run nc steps w)) = [c + 1 ..< c + 1 + reservations_of k steps]
     \<and> cache (snd (run nc steps w)) k = Some (c + reservations_of k steps)"
proof (induction steps arbitrary: w c)
  case Nil
  then show ?case by (simp add: nonces_for_Nil reservations_of_simps)
next
  case (Cons s steps)
  show ?case
  proof (cases s)
    case (Reserve k')
    show ?thesis
    proof (cases "k' = k")
      case True
      let ?w' = "w\<lparr>cache := (cache w)(k \<mapsto> c + 1)\<rparr>"
      have r: "reserve nc k w = (Inr (c + 1), ?w')" using Cons.prems by (rule reserve_hit)
      have c': "cache ?w' k = Some (c + 1)" by simp
      have n: "reservations_of k (s # steps) = 1 + reservations_of k steps"
        using Reserve True by (simp add: reservations_of_simps)
      note ih = Cons.IH [OF c']
      have "nonces_for k (fst (run nc (s # steps) w))
              = (c + 1) # nonces_for k (fst (run nc steps ?w'))"
        using run_Reserve [OF r] Reserve True by (simp add: nonces_for_Cons)
      moreover have "cache (snd (run nc (s # steps) w)) k = cache (snd (run nc steps ?w')) k"
        using run_Reserve [OF r] Reserve True by simp
      ultimately show ?thesis
        using ih unfolding n upt_step by simp
    next
      case False
      obtain res w' where r: "reserve nc k' w = (res, w')" by (cases "reserve nc k' w")
      have c': "cache w' k = Some c"
        using reserve_other [OF False, of nc w] r Cons.prems by simp
      have n: "reservations_of k (s # steps) = reservations_of k steps"
        using Reserve False by (simp add: reservations_of_simps)
      have "nonces_for k (fst (run nc (s # steps) w)) = nonces_for k (fst (run nc steps w'))"
        using run_Reserve [OF r] Reserve False by (simp add: nonces_for_Cons split: sum.splits)
      moreover have "cache (snd (run nc (s # steps) w)) k = cache (snd (run nc steps w')) k"
        using run_Reserve [OF r] Reserve by simp
      ultimately show ?thesis
        using Cons.IH [OF c'] unfolding n by simp
    qed
  next
    case (Environment f)
    have c': "cache (w\<lparr>net := f (net w)\<rparr>) k = Some c" using Cons.prems by simp
    from Cons.IH [OF c'] show ?thesis
      using Environment by (simp add: reservations_of_simps)
  qed
qed

text \<open>
  Claim C4, for the allocator as the specification describes it. Take the moment of
  the first reservation for a key \<open>k\<close>: the cache has no entry for \<open>k\<close> and the
  network answers the access-key query with the on-chain nonce \<open>base\<close>. Then,
  however the following reservations for \<open>k\<close> are interleaved with reservations
  for other keys and with changes of the network, the nonces handed out for \<open>k\<close>
  are \<open>base + 1, ..., base + N\<close> in the order served, where \<open>N\<close> is the number
  of reservations for \<open>k\<close>: as a multiset exactly \<open>{base + 1, ..., base + N}\<close>,
  without duplicates and without gaps. Each reservation is one atomic step, as the
  specification requires.
\<close>

theorem reserve_gives_consecutive_nonces:
  assumes "cache w k = None" and "queryAccessKey nc (net w) k = (Inr base, n')"
  shows "nonces_for k (fst (run nc (Reserve k # steps) w))
           = [base + 1 ..< base + 1 + reservations_of k (Reserve k # steps)]
         \<and> mset (nonces_for k (fst (run nc (Reserve k # steps) w)))
           = mset_set {base + 1 .. base + reservations_of k (Reserve k # steps)}
         \<and> distinct (nonces_for k (fst (run nc (Reserve k # steps) w)))"
proof -
  let ?w' = "w\<lparr>cache := (cache w)(k \<mapsto> base + 1), net := n', trace := trace w @ [Queried k]\<rparr>"
  let ?N = "reservations_of k (Reserve k # steps)"
  have r: "reserve nc k w = (Inr (base + 1), ?w')" using assms by (rule reserve_miss)
  have c': "cache ?w' k = Some (base + 1)" by simp
  have n: "?N = 1 + reservations_of k steps" by (simp add: reservations_of_simps)
  have "nonces_for k (fst (run nc (Reserve k # steps) w))
          = (base + 1) # nonces_for k (fst (run nc steps ?w'))"
    using run_Reserve [OF r] by (simp add: nonces_for_Cons)
  then have l: "nonces_for k (fst (run nc (Reserve k # steps) w)) = [base + 1 ..< base + 1 + ?N]"
    using run_cached [OF c', of nc steps] unfolding n upt_step by simp
  have s: "{base + 1 .. base + ?N} = {base + 1 ..< base + 1 + ?N}" by auto
  show ?thesis
  proof (intro conjI)
    show "nonces_for k (fst (run nc (Reserve k # steps) w)) = [base + 1 ..< base + 1 + ?N]"
      by (rule l)
    show "mset (nonces_for k (fst (run nc (Reserve k # steps) w))) = mset_set {base + 1 .. base + ?N}"
      by (simp only: l s mset_upt)
    show "distinct (nonces_for k (fst (run nc (Reserve k # steps) w)))"
      by (simp only: l distinct_upt)
  qed
qed

text \<open>Three reservations for one key from on-chain nonce 5, with a reservation for
  another key and a change of the chain in between.\<close>

theorem reserve_gives_consecutive_nonces_witness:
  "nonces_for alice
     (fst (run (scripted (id :: bytes \<Rightarrow> bytes))
             [Reserve alice, Reserve (''bob.testnet'', ''ed25519:B''),
              Environment (\<lambda>n. n\<lparr>on_chain := [40]\<rparr>), Reserve alice, Reserve alice]
             (fresh [5, 11] [] 0)))
   = [6, 7, 8]"
  using reserve_gives_consecutive_nonces
          [of "fresh [5, 11] [] 0" alice "scripted (id :: bytes \<Rightarrow> bytes)" 5
              "\<lparr>on_chain = [11], responses = [], pending = 0\<rparr>"
              "[Reserve (''bob.testnet'', ''ed25519:B''),
                Environment (\<lambda>n. n\<lparr>on_chain := [40]\<rparr>), Reserve alice, Reserve alice]"]
  by (simp add: fresh_def scripted_def alice_def reservations_of_def upt_rec)

subsection \<open>The submitter of the specification\<close>

lemma broadcast_loop_trace:
  "\<exists>m. m \<le> attempts \<and>
       trace (snd (broadcast_loop nc attempts b w)) = trace w @ replicate m (Broadcast b)
       \<and> cache (snd (broadcast_loop nc attempts b w)) = cache w"
proof (induction attempts arbitrary: w)
  case 0
  then show ?case by simp
next
  case (Suc attempts)
  obtain res n' where r: "broadcastTransaction nc (net w) b = (res, n')"
    by (cases "broadcastTransaction nc (net w) b")
  let ?w' = "w\<lparr>net := n', trace := trace w @ [Broadcast b]\<rparr>"
  show ?case
  proof (cases "\<exists>e. res = Inl e \<and> classify e = Transient")
    case True
    then have eq: "broadcast_loop nc (Suc attempts) b w = broadcast_loop nc attempts b ?w'"
      using r by (auto simp: Let_def)
    from Suc.IH [of ?w'] obtain m where m: "m \<le> attempts"
      "trace (snd (broadcast_loop nc attempts b ?w')) = trace ?w' @ replicate m (Broadcast b)"
      "cache (snd (broadcast_loop nc attempts b ?w')) = cache ?w'" by blast
    have "trace ?w' @ replicate m (Broadcast b) = trace w @ replicate (Suc m) (Broadcast b)"
      by simp
    with m eq show ?thesis
      by (intro exI [of _ "Suc m"]) simp
  next
    case False
    then have "snd (broadcast_loop nc (Suc attempts) b w) = ?w'"
      using r by (cases res) (auto simp: Let_def split: error_class.splits)
    then show ?thesis by (intro exI [of _ 1]) simp
  qed
qed

lemma poll_loop_trace:
  "\<exists>j. j \<le> polls \<and>
       trace (snd (poll_loop nc polls h w)) = trace w @ replicate j (Polled h)
       \<and> cache (snd (poll_loop nc polls h w)) = cache w"
proof (induction polls arbitrary: w)
  case 0
  then show ?case by simp
next
  case (Suc polls)
  obtain st n' where r: "getTransactionStatus nc (net w) h = (st, n')"
    by (cases "getTransactionStatus nc (net w) h")
  let ?w' = "w\<lparr>net := n', trace := trace w @ [Polled h]\<rparr>"
  show ?case
  proof (cases st)
    case None
    then have eq: "poll_loop nc (Suc polls) h w = poll_loop nc polls h ?w'"
      using r by simp
    from Suc.IH [of ?w'] obtain j where j: "j \<le> polls"
      "trace (snd (poll_loop nc polls h ?w')) = trace ?w' @ replicate j (Polled h)"
      "cache (snd (poll_loop nc polls h ?w')) = cache ?w'" by blast
    have "trace ?w' @ replicate j (Polled h) = trace w @ replicate (Suc j) (Polled h)"
      by simp
    with j eq show ?thesis
      by (intro exI [of _ "Suc j"]) simp
  next
    case (Some r')
    then have "snd (poll_loop nc (Suc polls) h w) = ?w'"
      using r by simp
    then show ?thesis by (intro exI [of _ 1]) simp
  qed
qed


lemma submit_trace:
  "\<exists>m j. m \<le> maxAttempts \<and> j \<le> maxPolls \<and>
     trace (snd (submit nc maxAttempts maxPolls stx w))
       = trace w @ replicate m (Broadcast (signed_bytes stx)) @ replicate j (Polled (tx_hash stx))
     \<and> cache (snd (submit nc maxAttempts maxPolls stx w)) = cache w"
proof -
  obtain res w' where b: "broadcast_loop nc maxAttempts (signed_bytes stx) w = (res, w')"
    by (cases "broadcast_loop nc maxAttempts (signed_bytes stx) w")
  from broadcast_loop_trace [of maxAttempts nc "signed_bytes stx" w] b
  obtain m where m: "m \<le> maxAttempts"
    "trace w' = trace w @ replicate m (Broadcast (signed_bytes stx))" "cache w' = cache w"
    by auto
  show ?thesis
  proof (cases res)
    case (Inl e)
    then have "snd (submit nc maxAttempts maxPolls stx w) = w'"
      using b by (simp add: submit_def)
    with m show ?thesis by (intro exI [of _ m] exI [of _ 0]) simp
  next
    case (Inr u)
    then have s: "submit nc maxAttempts maxPolls stx w = poll_loop nc maxPolls (tx_hash stx) w'"
      using b by (simp add: submit_def)
    from poll_loop_trace [of maxPolls nc "tx_hash stx" w']
    obtain j where j: "j \<le> maxPolls"
      "trace (snd (poll_loop nc maxPolls (tx_hash stx) w')) = trace w' @ replicate j (Polled (tx_hash stx))"
      "cache (snd (poll_loop nc maxPolls (tx_hash stx) w')) = cache w'" by blast
    with m s show ?thesis by (intro exI [of _ m] exI [of _ j]) simp
  qed
qed





subsection \<open>Recovery from a nonce conflict in the specification's pipeline\<close>

lemma signatures_append [simp]: "signatures (xs @ ys) = signatures xs @ signatures ys"
  by (induction xs rule: signatures.induct) simp_all

lemma signatures_replicate [simp]:
  "signatures (replicate m (Broadcast b)) = []" "signatures (replicate m (Polled h)) = []"
  by (induction m) simp_all

lemma reserve_signatures:
  "signatures (trace (snd (reserve nc k w))) = signatures (trace w)"
  by (auto simp: reserve_def split: option.splits prod.splits sum.splits)

lemma submit_signatures:
  "signatures (trace (snd (submit nc maxAttempts maxPolls stx w))) = signatures (trace w)"
proof -
  from submit_trace [of maxAttempts maxPolls nc stx w] obtain m j where
    "trace (snd (submit nc maxAttempts maxPolls stx w))
       = trace w @ replicate m (Broadcast (signed_bytes stx)) @ replicate j (Polled (tx_hash stx))"
    by blast
  then show ?thesis by simp
qed

lemma sign_and_submit_signatures:
  "signatures (trace (snd (sign_and_submit nc sign_with maxAttempts maxPolls n w)))
     = signatures (trace w) @ [n]"
  by (cases "sign_with n") (simp_all add: sign_and_submit_def Let_def submit_signatures)

lemma reserve_after_invalidate:
  assumes "queryAccessKey nc (net w) k = (Inr onChain, n')"
  shows "reserve nc k (invalidate k w)
         = (Inr (onChain + 1),
            w\<lparr>cache := (cache w)(k \<mapsto> onChain + 1), net := n',
              trace := trace w @ [Invalidated k, Queried k]\<rparr>)"
  using assms by (simp add: reserve_def invalidate_def)

lemma retry_after_conflict_signatures:
  "length (signatures (trace (snd (retry_after_conflict nc sign_with maxAttempts maxPolls k w))))
     \<le> length (signatures (trace w)) + 1"
proof -
  obtain r1 w1 where r: "reserve nc k (invalidate k w) = (r1, w1)"
    by (cases "reserve nc k (invalidate k w)")
  have s1: "signatures (trace w1) = signatures (trace w)"
    using reserve_signatures [of nc k "invalidate k w"] r by (simp add: invalidate_def)
  show ?thesis
  proof (cases r1)
    case (Inl e)
    then show ?thesis using r s1 by (simp add: retry_after_conflict_def)
  next
    case (Inr n)
    obtain res w2 where s: "sign_and_submit nc sign_with maxAttempts maxPolls n w1 = (res, w2)"
      by (cases "sign_and_submit nc sign_with maxAttempts maxPolls n w1")
    have "signatures (trace w2) = signatures (trace w) @ [n]"
      using sign_and_submit_signatures [of nc sign_with maxAttempts maxPolls n w1] s s1 by simp
    then show ?thesis
      using r Inr s by (simp add: retry_after_conflict_def)
  qed
qed

lemma sendTransaction_signatures:
  "length (signatures (trace (snd (sendTransaction nc sign_with maxAttempts maxPolls k w))))
     \<le> length (signatures (trace w)) + 2"
proof -
  obtain r1 w1 where r: "reserve nc k w = (r1, w1)" by (cases "reserve nc k w")
  have s1: "signatures (trace w1) = signatures (trace w)"
    using reserve_signatures [of nc k w] r by simp
  show ?thesis
  proof (cases r1)
    case (Inl e)
    then show ?thesis using r s1 by (simp add: sendTransaction_def)
  next
    case (Inr n)
    obtain res w2 where s: "sign_and_submit nc sign_with maxAttempts maxPolls n w1 = (res, w2)"
      by (cases "sign_and_submit nc sign_with maxAttempts maxPolls n w1")
    have s2: "signatures (trace w2) = signatures (trace w) @ [n]"
      using sign_and_submit_signatures [of nc sign_with maxAttempts maxPolls n w1] s s1 by simp
    show ?thesis
      using r Inr s s2 retry_after_conflict_signatures [of nc sign_with maxAttempts maxPolls k w2]
      by (simp add: sendTransaction_def)
  qed
qed

text \<open>
  Claim C6, for the pipeline as the specification describes it. Let the first
  submission, signed with the reserved nonce \<open>n1\<close>, be rejected for an invalid
  nonce, and let the chain then answer the access-key query with \<open>onChain\<close>. Then
  \<open>sendTransaction\<close> invalidates the cache entry, queries the chain, signs with
  \<open>onChain + 1\<close> and submits once more; it returns what that second submission
  returns, except that a second rejection for an invalid nonce is returned as the
  fatal \<open>NonceConflictError\<close>, with nothing done after it. In that run there are
  exactly the two signatures, for \<open>n1\<close> and \<open>onChain + 1\<close>; and in no run does
  \<open>sendTransaction\<close> request more than two.
\<close>

theorem nonce_conflict_retried_once:
  "(reserve nc k w = (Inr n1, w1)
    \<and> sign_and_submit nc sign_with maxAttempts maxPolls n1 w1
        = (Inl (NetworkFatalError invalidNonce), w2)
    \<and> queryAccessKey nc (net w2) k = (Inr onChain, n3) \<longrightarrow>
      sendTransaction nc sign_with maxAttempts maxPolls k w
        = (case sign_and_submit nc sign_with maxAttempts maxPolls (onChain + 1)
                  (w2\<lparr>cache := (cache w2)(k \<mapsto> onChain + 1), net := n3,
                      trace := trace w2 @ [Invalidated k, Queried k]\<rparr>) of
             (res, w4) \<Rightarrow>
               if res = Inl (NetworkFatalError invalidNonce) then (Inl NonceConflictError, w4)
               else (res, w4))
      \<and> signatures (trace (snd (sendTransaction nc sign_with maxAttempts maxPolls k w)))
          = signatures (trace w) @ [n1, onChain + 1])
   \<and> length (signatures (trace (snd (sendTransaction nc sign_with maxAttempts maxPolls k w))))
       \<le> length (signatures (trace w)) + 2"
proof (intro conjI impI)
  assume h: "reserve nc k w = (Inr n1, w1)
    \<and> sign_and_submit nc sign_with maxAttempts maxPolls n1 w1
        = (Inl (NetworkFatalError invalidNonce), w2)
    \<and> queryAccessKey nc (net w2) k = (Inr onChain, n3)"
  let ?w3 = "w2\<lparr>cache := (cache w2)(k \<mapsto> onChain + 1), net := n3,
                 trace := trace w2 @ [Invalidated k, Queried k]\<rparr>"
  from h have q: "queryAccessKey nc (net w2) k = (Inr onChain, n3)" by simp
  have r2: "reserve nc k (invalidate k w2) = (Inr (onChain + 1), ?w3)"
    by (rule reserve_after_invalidate [OF q])
  show eq: "sendTransaction nc sign_with maxAttempts maxPolls k w
        = (case sign_and_submit nc sign_with maxAttempts maxPolls (onChain + 1) ?w3 of
             (res, w4) \<Rightarrow>
               if res = Inl (NetworkFatalError invalidNonce) then (Inl NonceConflictError, w4)
               else (res, w4))"
    using h r2 by (simp add: sendTransaction_def retry_after_conflict_def)
  have s1: "signatures (trace w1) = signatures (trace w)"
    using reserve_signatures [of nc k w] h by simp
  have s2: "signatures (trace w2) = signatures (trace w) @ [n1]"
    using sign_and_submit_signatures [of nc sign_with maxAttempts maxPolls n1 w1] h s1 by simp
  have s3: "signatures (trace ?w3) = signatures (trace w) @ [n1]"
    using s2 by simp
  obtain res w4 where
    s: "sign_and_submit nc sign_with maxAttempts maxPolls (onChain + 1) ?w3 = (res, w4)"
    by (cases "sign_and_submit nc sign_with maxAttempts maxPolls (onChain + 1) ?w3")
  have s4: "signatures (trace w4) = signatures (trace w) @ [n1, onChain + 1]"
    using sign_and_submit_signatures [of nc sign_with maxAttempts maxPolls "onChain + 1" ?w3] s s3
    by simp
  have "snd (sendTransaction nc sign_with maxAttempts maxPolls k w) = w4"
    unfolding eq s by simp
  then show "signatures (trace (snd (sendTransaction nc sign_with maxAttempts maxPolls k w)))
          = signatures (trace w) @ [n1, onChain + 1]"
    using s4 by simp
next
  show "length (signatures (trace (snd (sendTransaction nc sign_with maxAttempts maxPolls k w))))
       \<le> length (signatures (trace w)) + 2"
    by (rule sendTransaction_signatures)
qed

text \<open>Section 8's scenario (on-chain nonce 5, conflict, on-chain nonce now 7, signed
  again with 8, accepted), and the same with a second conflict.\<close>

theorem nonce_conflict_retried_once_witness:
  "fst (sendTransaction (scripted id) sign_nonce 3 3 alice
          (fresh [5, 7] [Inl invalidNonce, Inr ()] 1)) = Inr [8]
   \<and> trace (snd (sendTransaction (scripted id) sign_nonce 3 3 alice
          (fresh [5, 7] [Inl invalidNonce, Inr ()] 1)))
     = [Queried alice, Signed 6, Broadcast [6, 1], Invalidated alice, Queried alice,
        Signed 8, Broadcast [8, 1], Polled [8], Polled [8]]
   \<and> fst (sendTransaction (scripted (id :: bytes \<Rightarrow> bytes)) sign_nonce 3 3 alice
          (fresh [5, 7] [Inl invalidNonce, Inl invalidNonce] 1)) = Inl NonceConflictError
   \<and> signatures (trace (snd (sendTransaction (scripted (id :: bytes \<Rightarrow> bytes)) sign_nonce 3 3 alice
          (fresh [5, 7] [Inl invalidNonce, Inl invalidNonce] 1)))) = [6, 8]"
  using nonce_conflict_retried_once
          [of "scripted (id :: bytes \<Rightarrow> bytes)" alice "fresh [5, 7] [Inl invalidNonce, Inl invalidNonce] 1" 6
              "\<lparr>cache = [alice \<mapsto> 6],
                net = \<lparr>on_chain = [7], responses = [Inl invalidNonce, Inl invalidNonce], pending = 1\<rparr>,
                trace = [Queried alice]\<rparr>"
              sign_nonce 3 3
              "\<lparr>cache = [alice \<mapsto> 6],
                net = \<lparr>on_chain = [7], responses = [Inl invalidNonce], pending = 1\<rparr>,
                trace = [Queried alice, Signed 6, Broadcast [6, 1]]\<rparr>"
              7 "\<lparr>on_chain = [], responses = [Inl invalidNonce], pending = 1\<rparr>"]
  by (simp add: fresh_def scripted_def sign_nonce_def alice_def sendTransaction_def
        retry_after_conflict_def sign_and_submit_def submit_def reserve_def invalidate_def
        eval_nat_numeral)

subsection \<open>The transaction encoder of the specification\<close>

lemma length_le [simp]: "length (le k n) = k"
  by (induction k arbitrary: n) simp_all

lemma byte_of_nat_eq:
  "(of_nat a :: 8 word) = of_nat b \<Longrightarrow> a < 256 \<Longrightarrow> b < 256 \<Longrightarrow> a = b"
  by (simp add: word_of_nat_eq_iff take_bit_nat_eq_self)

lemma le_inject:
  "le k n = le k m \<Longrightarrow> n < 256 ^ k \<Longrightarrow> m < 256 ^ k \<Longrightarrow> n = m"
proof (induction k arbitrary: n m)
  case 0
  then show ?case by simp
next
  case (Suc k)
  from Suc.prems have h: "(of_nat (n mod 256) :: 8 word) = of_nat (m mod 256)"
    and t: "le k (n div 256) = le k (m div 256)" by simp_all
  have "n mod 256 = m mod 256" using h by (rule byte_of_nat_eq) simp_all
  moreover have "n div 256 = m div 256"
  proof (rule Suc.IH [OF t])
    show "n div 256 < 256 ^ k" using Suc.prems(2) by (simp add: less_mult_imp_div_less mult.commute)
    show "m div 256 < 256 ^ k" using Suc.prems(3) by (simp add: less_mult_imp_div_less mult.commute)
  qed
  ultimately show ?case by (metis div_mult_mod_eq)
qed


lemma put_inject:
  assumes "kind_of f = kind_of g" "fits f" "fits g" "put f @ r = put g @ r'"
  shows "f = g \<and> r = r'"
proof (cases f)
  case (U64 w)
  then obtain v where g: "g = U64 v" using assms(1) by (cases g) simp_all
  have "le 8 (unat w) = le 8 (unat v) \<and> r = r'" using assms(4) U64 g by simp
  moreover have "unat w < 256 ^ 8" "unat v < 256 ^ 8"
    using unsigned_less [of w, where ?'a = nat] unsigned_less [of v, where ?'a = nat] by simp_all
  ultimately have "unat w = unat v \<and> r = r'" using le_inject by blast
  then show ?thesis using U64 g by (simp add: word_unat_eq_iff)
next
  case (U128 w)
  then obtain v where g: "g = U128 v" using assms(1) by (cases g) simp_all
  have "le 16 (unat w) = le 16 (unat v) \<and> r = r'" using assms(4) U128 g by simp
  moreover have "unat w < 256 ^ 16" "unat v < 256 ^ 16"
    using unsigned_less [of w, where ?'a = nat] unsigned_less [of v, where ?'a = nat] by simp_all
  ultimately have "unat w = unat v \<and> r = r'" using le_inject by blast
  then show ?thesis using U128 g by (simp add: word_unat_eq_iff)
next
  case (Blob bs)
  then obtain cs where g: "g = Blob cs" using assms(1) by (cases g) simp_all
  have e: "le 4 (length bs) = le 4 (length cs) \<and> bs @ r = cs @ r'"
    using assms(4) Blob g by simp
  moreover have "length bs < 256 ^ 4" "length cs < 256 ^ 4" using assms(2,3) Blob g by simp_all
  ultimately have "length bs = length cs" using le_inject by blast
  then show ?thesis using e Blob g by simp
qed

lemma puts_inject:
  "map kind_of fs = map kind_of gs \<Longrightarrow> list_all fits fs \<Longrightarrow> list_all fits gs \<Longrightarrow>
   concat (map put fs) @ r = concat (map put gs) @ r' \<Longrightarrow> fs = gs \<and> r = r'"
proof (induction fs arbitrary: gs)
  case Nil
  then show ?case by simp
next
  case (Cons f fs)
  then obtain g gs' where g: "gs = g # gs'" by (cases gs) simp_all
  have "put f @ (concat (map put fs) @ r) = put g @ (concat (map put gs') @ r')"
    using Cons.prems(4) g by simp
  moreover have "kind_of f = kind_of g" "fits f" "fits g" using Cons.prems g by simp_all
  ultimately have h: "f = g \<and> concat (map put fs) @ r = concat (map put gs') @ r'"
    using put_inject by blast
  then have "fs = gs' \<and> r = r'" using Cons.IH [of gs'] Cons.prems g by simp
  with h g show ?case by simp
qed

lemma discriminant_inject: "discriminant t = discriminant t' \<Longrightarrow> t = t'"
  by (cases t; cases t') simp_all

lemma put_action_inject:
  assumes "well_formed declared a" "well_formed declared a'" "put_action a @ r = put_action a' @ r'"
  shows "a = a' \<and> r = r'"
proof -
  from assms(3) have t: "tag a = tag a'"
    and c: "concat (map put (payload a)) @ r = concat (map put (payload a')) @ r'"
    by (simp_all add: put_action_def discriminant_inject)
  have k: "map kind_of (payload a) = map kind_of (payload a')"
    using assms(1,2) t by (simp add: well_formed_def)
  have f: "list_all fits (payload a)" "list_all fits (payload a')"
    using assms(1,2) by (simp_all add: well_formed_def)
  have "payload a = payload a' \<and> r = r'"
    by (rule puts_inject [OF k f c])
  with t show ?thesis by simp
qed

lemma put_actions_inject:
  "length as = length as' \<Longrightarrow> list_all (well_formed declared) as \<Longrightarrow>
   list_all (well_formed declared) as' \<Longrightarrow>
   concat (map put_action as) @ r = concat (map put_action as') @ r' \<Longrightarrow> as = as' \<and> r = r'"
proof (induction as arbitrary: as')
  case Nil
  then show ?case by simp
next
  case (Cons a as)
  then obtain b bs where b: "as' = b # bs" by (cases as') simp_all
  have "put_action a @ (concat (map put_action as) @ r) = put_action b @ (concat (map put_action bs) @ r')"
    using Cons.prems(4) b by simp
  moreover have "well_formed declared a" "well_formed declared b" using Cons.prems b by simp_all
  ultimately have h: "a = b \<and> concat (map put_action as) @ r = concat (map put_action bs) @ r'"
    using put_action_inject by blast
  then have "as = bs \<and> r = r'" using Cons.IH [of bs] Cons.prems b by simp
  with h b show ?case by simp
qed

lemma bytes_of_inject: "bytes_of s = bytes_of t \<Longrightarrow> s = t"
proof (induction s arbitrary: t)
  case Nil
  then show ?case by (simp add: bytes_of_def)
next
  case (Cons c s)
  then obtain d t' where t: "t = d # t'" by (cases t) (simp_all add: bytes_of_def)
  from Cons.prems t have h: "(of_char c :: 8 word) = of_char d" and r: "bytes_of s = bytes_of t'"
    by (simp_all add: bytes_of_def)
  have "(of_nat (of_char c) :: 8 word) = of_nat (of_char d)" using h by (simp add: of_nat_of_char)
  moreover have "(of_char c :: nat) < 256" "(of_char d :: nat) < 256"
    by (metis of_char_mod_256 mod_less_divisor zero_less_numeral)+
  ultimately have "(of_char c :: nat) = of_char d"
    by (rule byte_of_nat_eq)
  then have "c = d" by simp
  with Cons.IH [OF r] t show ?case by simp
qed

lemma encode_inject:
  fixes tx :: "'y Transaction_scheme" and tx' :: "'z Transaction_scheme"
  assumes "conforms declared tx" "conforms declared tx'"
    and "encodable tx" "encodable tx'" "encode tx = encode tx'"
  shows "signerId tx = signerId tx' \<and> publicKey tx = publicKey tx' \<and> nonce tx = nonce tx'
         \<and> receiverId tx = receiverId tx' \<and> blockHash tx = blockHash tx'
         \<and> actions tx = actions tx'"
proof -
  note e = assms(3,4)
  have eq: "concat (map put (header tx)) @ (le 4 (length (actions tx)) @ concat (map put_action (actions tx)))
          = concat (map put (header tx')) @ (le 4 (length (actions tx')) @ concat (map put_action (actions tx')))"
    using assms(5) e by (simp add: encode_def)
  have k: "map kind_of (header tx) = map kind_of (header tx')" by (simp add: header_def)
  have f: "list_all fits (header tx)" "list_all fits (header tx')"
    using e by (simp_all add: encodable_def)
  from puts_inject [OF k f eq] have h: "header tx = header tx'"
    and r: "le 4 (length (actions tx)) @ concat (map put_action (actions tx))
          = le 4 (length (actions tx')) @ concat (map put_action (actions tx'))"
    by simp_all
  from r have l: "le 4 (length (actions tx)) = le 4 (length (actions tx'))"
    and c: "concat (map put_action (actions tx)) = concat (map put_action (actions tx'))"
    by simp_all
  have n: "length (actions tx) = length (actions tx')"
    using le_inject [OF l] e by (simp add: encodable_def)
  have w: "list_all (well_formed declared) (actions tx)" "list_all (well_formed declared) (actions tx')"
    using assms(1,2) e by (simp_all add: conforms_def encodable_def well_formed_def list_all_iff)
  have "actions tx = actions tx'"
    using put_actions_inject [OF n w, of "[]" "[]"] c by simp
  with h show ?thesis by (auto simp: header_def dest: bytes_of_inject)
qed

text \<open>
  Claim C7, for the encoder as the specification describes it. \<open>encode\<close> is a
  function of the logical transaction alone: two transaction values with the same
  signer, public key, nonce, receiver, block hash and actions have the same
  encoding, whatever else is attached to them. And a transaction that the encoder
  accepts differs in its encoding from every transaction that differs from it in a
  field, be it one field or several, where both carry for each action the typed
  fields its variant declares: the other one is either refused with
  \<open>EncodingError\<close> or encoded to other bytes.
\<close>

theorem encode_deterministic_and_sensitive:
  fixes tx :: "'y Transaction_scheme" and tx' :: "'z Transaction_scheme"
  shows
  "(signerId tx = signerId tx' \<and> publicKey tx = publicKey tx' \<and> nonce tx = nonce tx'
      \<and> receiverId tx = receiverId tx' \<and> blockHash tx = blockHash tx'
      \<and> actions tx = actions tx' \<longrightarrow> encode tx = encode tx')
   \<and> (conforms declared tx \<and> conforms declared tx' \<and> encodable tx
      \<and> (signerId tx \<noteq> signerId tx' \<or> publicKey tx \<noteq> publicKey tx' \<or> nonce tx \<noteq> nonce tx'
         \<or> receiverId tx \<noteq> receiverId tx' \<or> blockHash tx \<noteq> blockHash tx'
         \<or> actions tx \<noteq> actions tx')
      \<longrightarrow> encode tx \<noteq> encode tx')"
proof (intro conjI impI)
  assume "signerId tx = signerId tx' \<and> publicKey tx = publicKey tx' \<and> nonce tx = nonce tx'
      \<and> receiverId tx = receiverId tx' \<and> blockHash tx = blockHash tx'
      \<and> actions tx = actions tx'"
  then show "encode tx = encode tx'"
    by (simp add: encode_def encodable_def header_def)
next
  assume h: "conforms declared tx \<and> conforms declared tx' \<and> encodable tx
      \<and> (signerId tx \<noteq> signerId tx' \<or> publicKey tx \<noteq> publicKey tx' \<or> nonce tx \<noteq> nonce tx'
         \<or> receiverId tx \<noteq> receiverId tx' \<or> blockHash tx \<noteq> blockHash tx'
         \<or> actions tx \<noteq> actions tx')"
  show "encode tx \<noteq> encode tx'"
  proof
    assume eq: "encode tx = encode tx'"
    have e': "encodable tx'"
      using eq h by (auto simp: encode_def split: if_splits)
    from h have c: "conforms declared tx" "conforms declared tx'" "encodable tx" by simp_all
    from encode_inject [OF c e' eq] h show False by blast
  qed
qed

text \<open>The Transfer of section 8 with another nonce, and with another amount.\<close>

theorem encode_sensitive_witness:
  "encode transfer_example \<noteq> encode (transfer_example\<lparr>nonce := 8\<rparr>)
   \<and> encode transfer_example
       \<noteq> encode (transfer_example\<lparr>actions := [\<lparr>tag = Transfer, payload = [U128 2]\<rparr>]\<rparr>)"
  using encode_deterministic_and_sensitive
          [of transfer_example "transfer_example\<lparr>nonce := 8\<rparr>" declared_example]
        encode_deterministic_and_sensitive
          [of transfer_example
              "transfer_example\<lparr>actions := [\<lparr>tag = Transfer, payload = [U128 2]\<rparr>]\<rparr>"
              declared_example]
  by (simp add: transfer_example_def declared_example_def conforms_def encodable_def header_def
        bytes_of_def)

end
